theory Spec2Isabelle
  imports Main "HOL-Library.Finite_Map" "HOL-Library.Word"
begin

unbundle bit_operations_syntax

section \<open>The virtual file-descriptor table of \<^verbatim>\<open>file_system.cc\<close>\<close>

text \<open>
  The class \<^verbatim>\<open>FileSystem\<close> keeps a \<^verbatim>\<open>std::map<int, FileStream*>\<close> from descriptors to
  stream pointers, a registry of path handlers and a two-way host table. Every public
  method takes the one mutex for its whole body, so a method is modelled as a function
  from the object's state to its result and the new state; only the waits of \<^verbatim>\<open>select\<close>
  let other threads in. What the streams, the path handlers and the socket do is outside
  this file: their answers are read from a record of external behaviour, a call into
  them is one step, and every call made through a handle is appended to a trace kept in
  the state.
\<close>

subsection \<open>Pointers, error numbers and return values\<close>

text \<open>
  A \<^verbatim>\<open>FileStream*\<close> is the null pointer, the constant \<^verbatim>\<open>kBadFileStream\<close>
  (\<^verbatim>\<open>(FileStream*)-1\<close>) or the address of an object.
\<close>

datatype FileStream_ptr = NULL | kBadFileStream | Obj nat

datatype PathHandler_ptr = NULL_handler | Handler nat

text \<open>The macros of \<^verbatim>\<open>errno.h\<close> this file uses, kept symbolic.\<close>

datatype errno_t = ENOENT | EACCES | EBADF | ECONNREFUSED | ETIMEDOUT | Errno_other int

text \<open>A C \<^verbatim>\<open>int\<close> that is returned: a number, or one of the macros above.\<close>

datatype retval = Val int | Err errno_t

text \<open>
  What the C++ leaves undefined or aborts on: a failed \<^verbatim>\<open>assert\<close>, a member call through
  the null pointer, a member call through \<^verbatim>\<open>kBadFileStream\<close>, and a wait that is never
  woken.
\<close>

datatype fault = AssertionFailed | NullPointerCall | BadPointerCall | Blocked

subsection \<open>Calls made through handles\<close>

datatype io_op =
    Op_read nat
  | Op_write string
  | Op_seek int int
  | Op_fstat
  | Op_getdents nat
  | Op_isatty
  | Op_fcntl int "int list"
  | Op_ioctl int "int list"

datatype call =
    Call_close nat
  | Call_release nat
  | Call_dup nat int
  | Call_io nat io_op
  | Call_open nat int string int
  | New_TCPSocket nat int
  | Call_connect nat string "16 word"

text \<open>
  The behaviour of the collaborators, and the constants of \<^verbatim>\<open>file_system.h\<close>
  (\<^verbatim>\<open>kFileIDOffset\<close>, \<^verbatim>\<open>kFirstAddr\<close>), which are parameters here. \<open>NDEBUG\<close> tells
  whether \<^verbatim>\<open>assert\<close> is compiled away. The out-parameters a stream fills in are carried
  as a string next to its return value.
\<close>

record extern =
  NDEBUG :: bool
  kFileIDOffset :: int
  kFirstAddr :: "32 word"
  PathHandler_open :: "nat \<Rightarrow> int \<Rightarrow> string \<Rightarrow> int \<Rightarrow> FileStream_ptr"
  FileStream_dup :: "nat \<Rightarrow> int \<Rightarrow> FileStream_ptr"
  FileStream_io :: "nat \<Rightarrow> io_op \<Rightarrow> retval \<times> string"
  is_read_ready :: "nat \<Rightarrow> bool"
  is_write_ready :: "nat \<Rightarrow> bool"
  is_exception :: "nat \<Rightarrow> bool"
  TCPSocket_connect :: "nat \<Rightarrow> string \<Rightarrow> 16 word \<Rightarrow> bool"

subsection \<open>The state of the object\<close>

text \<open>
  The members \<^verbatim>\<open>paths_\<close>, \<^verbatim>\<open>streams_\<close>, \<^verbatim>\<open>hosts_\<close>, \<^verbatim>\<open>addrs_\<close> and
  \<^verbatim>\<open>first_unused_addr_\<close>, the thread's \<^verbatim>\<open>errno\<close>, the trace of calls and the next
  address \<^verbatim>\<open>new\<close> hands out. The descriptor table is a finite map, as a
  \<^verbatim>\<open>std::map\<close> is; descriptors are unbounded integers (a table that holds every
  \<^verbatim>\<open>int\<close> from the offset up does not fit the address space).
\<close>

record FileSystem =
  paths :: "string \<rightharpoonup> PathHandler_ptr"
  streams :: "(int, FileStream_ptr) fmap"
  hosts :: "string \<rightharpoonup> 32 word"
  addrs :: "32 word \<rightharpoonup> string"
  first_unused_addr :: "32 word"
  errno :: errno_t
  calls :: "call list"
  next_obj :: nat

definition bind_fault :: "fault + 'a \<Rightarrow> ('a \<Rightarrow> fault + 'b) \<Rightarrow> fault + 'b" where
  "bind_fault m f = (case m of Inl e \<Rightarrow> Inl e | Inr x \<Rightarrow> f x)"

definition log_call :: "call \<Rightarrow> FileSystem \<Rightarrow> FileSystem" where
  "log_call c s = s\<lparr>calls := calls s @ [c]\<rparr>"

subsection \<open>Table primitives\<close>

definition IsKnowDescriptor :: "FileSystem \<Rightarrow> int \<Rightarrow> bool" where
  "IsKnowDescriptor s fd = (fd |\<in>| fmdom (streams s))"

definition GetStream :: "FileSystem \<Rightarrow> int \<Rightarrow> FileStream_ptr" where
  "GetStream s fd = (case fmlookup (streams s) fd of Some p \<Rightarrow> p | None \<Rightarrow> NULL)"

definition AddFileStream :: "extern \<Rightarrow> int \<Rightarrow> FileStream_ptr \<Rightarrow> FileSystem \<Rightarrow> fault + FileSystem" where
  "AddFileStream x fd stream s =
     (if \<not> NDEBUG x \<and> \<not> (fmlookup (streams s) fd = None \<or> fmlookup (streams s) fd = Some NULL)
      then Inl AssertionFailed
      else Inr (s\<lparr>streams := fmupd fd stream (streams s)\<rparr>))"

definition RemoveFileStream :: "extern \<Rightarrow> int \<Rightarrow> FileSystem \<Rightarrow> fault + FileSystem" where
  "RemoveFileStream x fd s =
     (if \<not> NDEBUG x \<and> fmlookup (streams s) fd = None
      then Inl AssertionFailed
      else Inr (s\<lparr>streams := fmdrop fd (streams s)\<rparr>))"

text \<open>The loop \<^verbatim>\<open>while (IsKnowDescriptor(fd)) fd++;\<close>, started at \<open>fd\<close>.\<close>

function GetFirstUnusedDescriptor_from :: "FileSystem \<Rightarrow> int \<Rightarrow> int" where
  "GetFirstUnusedDescriptor_from s fd =
     (if IsKnowDescriptor s fd then GetFirstUnusedDescriptor_from s (fd + 1) else fd)"
  by pat_completeness auto
termination
proof (relation "measure (\<lambda>(s, fd). card {k \<in> fmdom' (streams s). fd \<le> k})")
  show "wf (measure (\<lambda>(s, fd). card {k \<in> fmdom' (streams s). fd \<le> k}))"
    by simp
next
  fix s :: FileSystem and fd :: int
  assume known: "IsKnowDescriptor s fd"
  have fin: "finite {k \<in> fmdom' (streams s). fd \<le> k}"
    by simp
  have here: "fd \<in> {k \<in> fmdom' (streams s). fd \<le> k}"
    using known by (simp add: IsKnowDescriptor_def fmdom'_alt_def)
  have gone: "fd \<notin> {k \<in> fmdom' (streams s). fd + 1 \<le> k}"
    by simp
  have "{k \<in> fmdom' (streams s). fd + 1 \<le> k} \<subseteq> {k \<in> fmdom' (streams s). fd \<le> k}"
    by auto
  with here gone
  have "{k \<in> fmdom' (streams s). fd + 1 \<le> k} \<subset> {k \<in> fmdom' (streams s). fd \<le> k}"
    by blast
  with fin
  have "card {k \<in> fmdom' (streams s). fd + 1 \<le> k} < card {k \<in> fmdom' (streams s). fd \<le> k}"
    by (rule psubset_card_mono)
  then show "((s, fd + 1), (s, fd)) \<in> measure (\<lambda>(s, fd). card {k \<in> fmdom' (streams s). fd \<le> k})"
    by simp
qed

declare GetFirstUnusedDescriptor_from.simps [simp del]

definition GetFirstUnusedDescriptor :: "extern \<Rightarrow> FileSystem \<Rightarrow> int" where
  "GetFirstUnusedDescriptor x s = GetFirstUnusedDescriptor_from s (kFileIDOffset x)"

subsection \<open>Calls through a pointer\<close>

text \<open>
  A member call \<^verbatim>\<open>p->m(...)\<close> needs an object behind \<open>p\<close>; through the null pointer or
  through \<^verbatim>\<open>kBadFileStream\<close> it is undefined behaviour, a fault of the model.
\<close>

definition member_call :: "FileStream_ptr \<Rightarrow> (nat \<Rightarrow> call) \<Rightarrow> FileSystem \<Rightarrow> fault + FileSystem" where
  "member_call p c s =
     (case p of
        NULL \<Rightarrow> Inl NullPointerCall
      | kBadFileStream \<Rightarrow> Inl BadPointerCall
      | Obj a \<Rightarrow> Inr (log_call (c a) s))"

definition stream_dup :: "extern \<Rightarrow> FileStream_ptr \<Rightarrow> int \<Rightarrow> FileSystem \<Rightarrow> fault + (FileStream_ptr \<times> FileSystem)" where
  "stream_dup x p newfd s =
     (case p of
        NULL \<Rightarrow> Inl NullPointerCall
      | kBadFileStream \<Rightarrow> Inl BadPointerCall
      | Obj a \<Rightarrow> Inr (FileStream_dup x a newfd, log_call (Call_dup a newfd) s))"

definition stream_io :: "extern \<Rightarrow> FileStream_ptr \<Rightarrow> io_op \<Rightarrow> FileSystem \<Rightarrow> fault + ((retval \<times> string) \<times> FileSystem)" where
  "stream_io x p operation s =
     (case p of
        NULL \<Rightarrow> Inl NullPointerCall
      | kBadFileStream \<Rightarrow> Inl BadPointerCall
      | Obj a \<Rightarrow> Inr (FileStream_io x a operation, log_call (Call_io a operation) s))"

definition handler_open :: "extern \<Rightarrow> PathHandler_ptr \<Rightarrow> int \<Rightarrow> string \<Rightarrow> int \<Rightarrow> FileSystem \<Rightarrow> fault + (FileStream_ptr \<times> FileSystem)" where
  "handler_open x p fd pathname oflag s =
     (case p of
        NULL_handler \<Rightarrow> Inl NullPointerCall
      | Handler h \<Rightarrow> Inr (PathHandler_open x h fd pathname oflag, log_call (Call_open h fd pathname oflag) s))"

subsection \<open>open, close, dup, dup2, socket\<close>

text \<open>
  A method \<^verbatim>\<open>FileSystem::m\<close> is the function \<open>fs_m\<close>. The methods that return an error
  number and store their result through a pointer (\<^verbatim>\<open>open\<close>, \<^verbatim>\<open>dup\<close>) give the pair of
  the return value and what was stored, if anything.
\<close>

definition fs_open :: "extern \<Rightarrow> string \<Rightarrow> int \<Rightarrow> FileSystem \<Rightarrow> fault + ((retval \<times> int option) \<times> FileSystem)" where
  "fs_open x pathname oflag s =
     (case paths s pathname of
        None \<Rightarrow> Inr ((Err ENOENT, None), s)
      | Some handler \<Rightarrow>
          let fd = GetFirstUnusedDescriptor x s in
          bind_fault (AddFileStream x fd NULL s) (\<lambda>s1.
          bind_fault (handler_open x handler fd pathname oflag s1) (\<lambda>(stream, s2).
            if stream = NULL
            then bind_fault (RemoveFileStream x fd s2) (\<lambda>s3. Inr ((Err EACCES, None), s3))
            else bind_fault (AddFileStream x fd stream s2) (\<lambda>s3. Inr ((Val 0, Some fd), s3)))))"

definition fs_close :: "extern \<Rightarrow> int \<Rightarrow> FileSystem \<Rightarrow> fault + (retval \<times> FileSystem)" where
  "fs_close x fd s =
     (if \<not> IsKnowDescriptor s fd then Inr (Err EBADF, s)
      else
        let stream = GetStream s fd in
        bind_fault
          (if stream \<noteq> NULL \<and> stream \<noteq> kBadFileStream
           then bind_fault (member_call stream Call_close s) (member_call stream Call_release)
           else Inr s) (\<lambda>s1.
        bind_fault (RemoveFileStream x fd s1) (\<lambda>s2. Inr (Val 0, s2))))"

definition fs_dup :: "extern \<Rightarrow> int \<Rightarrow> FileSystem \<Rightarrow> fault + ((retval \<times> int option) \<times> FileSystem)" where
  "fs_dup x fd s =
     (let stream = GetStream s fd in
      if stream = NULL \<or> stream = kBadFileStream then Inr ((Err EBADF, None), s)
      else
        let newfd = GetFirstUnusedDescriptor x s in
        bind_fault (AddFileStream x newfd NULL s) (\<lambda>s1.
        bind_fault (stream_dup x stream newfd s1) (\<lambda>(new_stream, s2).
          if new_stream = NULL
          then bind_fault (RemoveFileStream x newfd s2) (\<lambda>s3. Inr ((Err EACCES, Some newfd), s3))
          else bind_fault (AddFileStream x newfd new_stream s2) (\<lambda>s3. Inr ((Val 0, Some newfd), s3)))))"

definition fs_dup2 :: "extern \<Rightarrow> int \<Rightarrow> int \<Rightarrow> FileSystem \<Rightarrow> fault + (retval \<times> FileSystem)" where
  "fs_dup2 x fd newfd s =
     (let stream = GetStream s fd in
      if stream = NULL \<or> stream = kBadFileStream then Inr (Err EBADF, s)
      else
        let new_stream = GetStream s newfd in
        if stream = kBadFileStream then Inr (Err EBADF, s)
        else
          bind_fault
            (if new_stream = NULL
             then bind_fault (member_call new_stream Call_close s) (\<lambda>s1.
                  bind_fault (member_call new_stream Call_release s1) (\<lambda>s2.
                  RemoveFileStream x newfd s2))
             else Inr s) (\<lambda>s3.
          bind_fault (AddFileStream x newfd NULL s3) (\<lambda>s4.
          bind_fault (stream_dup x stream newfd s4) (\<lambda>(new_stream, s5).
            if new_stream = NULL then Inr (Err EACCES, s5)
            else bind_fault (AddFileStream x newfd new_stream s5) (\<lambda>s6. Inr (Val 0, s6))))))"

definition fs_socket :: "extern \<Rightarrow> FileSystem \<Rightarrow> fault + (int \<times> FileSystem)" where
  "fs_socket x s =
     (let fd = GetFirstUnusedDescriptor x s in
      bind_fault (AddFileStream x fd NULL s) (\<lambda>s1. Inr (fd, s1)))"

subsection \<open>Operations delegated to the stream\<close>

definition fs_read :: "extern \<Rightarrow> int \<Rightarrow> nat \<Rightarrow> FileSystem \<Rightarrow> fault + ((retval \<times> string) \<times> FileSystem)" where
  "fs_read x fd count s =
     (let stream = GetStream s fd in
      if stream \<noteq> NULL \<and> stream \<noteq> kBadFileStream then stream_io x stream (Op_read count) s
      else Inr ((Err EBADF, []), s))"

definition fs_write :: "extern \<Rightarrow> int \<Rightarrow> string \<Rightarrow> FileSystem \<Rightarrow> fault + ((retval \<times> string) \<times> FileSystem)" where
  "fs_write x fd buf s =
     (let stream = GetStream s fd in
      if stream \<noteq> NULL \<and> stream \<noteq> kBadFileStream then stream_io x stream (Op_write buf) s
      else Inr ((Err EBADF, []), s))"

definition fs_seek :: "extern \<Rightarrow> int \<Rightarrow> int \<Rightarrow> int \<Rightarrow> FileSystem \<Rightarrow> fault + ((retval \<times> string) \<times> FileSystem)" where
  "fs_seek x fd offset whence s =
     (let stream = GetStream s fd in
      if stream \<noteq> NULL \<and> stream \<noteq> kBadFileStream then stream_io x stream (Op_seek offset whence) s
      else Inr ((Err EBADF, []), s))"

definition fs_fstat :: "extern \<Rightarrow> int \<Rightarrow> FileSystem \<Rightarrow> fault + ((retval \<times> string) \<times> FileSystem)" where
  "fs_fstat x fd s =
     (let stream = GetStream s fd in
      if stream \<noteq> NULL \<and> stream \<noteq> kBadFileStream then stream_io x stream Op_fstat s
      else Inr ((Err EBADF, []), s))"

definition fs_getdents :: "extern \<Rightarrow> int \<Rightarrow> nat \<Rightarrow> FileSystem \<Rightarrow> fault + ((retval \<times> string) \<times> FileSystem)" where
  "fs_getdents x fd count s =
     (let stream = GetStream s fd in
      if stream \<noteq> NULL \<and> stream \<noteq> kBadFileStream then stream_io x stream (Op_getdents count) s
      else Inr ((Err EBADF, []), s))"

text \<open>\<^verbatim>\<open>isatty\<close>, \<^verbatim>\<open>fcntl\<close> and \<^verbatim>\<open>ioctl\<close> report the error through \<^verbatim>\<open>errno\<close>.\<close>

definition fs_isatty :: "extern \<Rightarrow> int \<Rightarrow> FileSystem \<Rightarrow> fault + ((retval \<times> string) \<times> FileSystem)" where
  "fs_isatty x fd s =
     (let stream = GetStream s fd in
      if stream \<noteq> NULL \<and> stream \<noteq> kBadFileStream then stream_io x stream Op_isatty s
      else Inr ((Val 0, []), s\<lparr>errno := EBADF\<rparr>))"

definition fs_fcntl :: "extern \<Rightarrow> int \<Rightarrow> int \<Rightarrow> int list \<Rightarrow> FileSystem \<Rightarrow> fault + ((retval \<times> string) \<times> FileSystem)" where
  "fs_fcntl x fd cmd ap s =
     (let stream = GetStream s fd in
      if stream \<noteq> NULL \<and> stream \<noteq> kBadFileStream then stream_io x stream (Op_fcntl cmd ap) s
      else Inr ((Val (- 1), []), s\<lparr>errno := EBADF\<rparr>))"

definition fs_ioctl :: "extern \<Rightarrow> int \<Rightarrow> int \<Rightarrow> int list \<Rightarrow> FileSystem \<Rightarrow> fault + ((retval \<times> string) \<times> FileSystem)" where
  "fs_ioctl x fd request ap s =
     (let stream = GetStream s fd in
      if stream \<noteq> NULL \<and> stream \<noteq> kBadFileStream then stream_io x stream (Op_ioctl request ap) s
      else Inr ((Val (- 1), []), s\<lparr>errno := EBADF\<rparr>))"

subsection \<open>select\<close>

text \<open>
  An \<^verbatim>\<open>fd_set\<close> is the set of descriptors whose bit is set; a null \<^verbatim>\<open>fd_set*\<close> is
  \<open>None\<close>. The size of the bitmap is not modelled: \<open>nfds\<close> is taken to be within
  \<^verbatim>\<open>FD_SETSIZE\<close>. \<open>IsReady_from\<close> is the \<^verbatim>\<open>for\<close> loop of \<^verbatim>\<open>IsReady\<close> from index \<open>i\<close>
  on, with the member function \<open>is_ready\<close> it is given: it gives the returned number and
  the set as \<^verbatim>\<open>FD_CLR\<close> has left it.
\<close>

function IsReady_from ::
  "FileSystem \<Rightarrow> int \<Rightarrow> (nat \<Rightarrow> bool) \<Rightarrow> bool \<Rightarrow> int \<Rightarrow> int set \<Rightarrow> int \<Rightarrow> fault + (int \<times> int set)" where
  "IsReady_from s nfds is_ready apply i fds nset =
     (if i < nfds then
        (if i \<in> fds then
           (case GetStream s i of
              NULL \<Rightarrow> Inr (- 1, fds)
            | kBadFileStream \<Rightarrow> Inl BadPointerCall
            | Obj a \<Rightarrow>
                if is_ready a then
                  (if \<not> apply then Inr (1, fds)
                   else IsReady_from s nfds is_ready apply (i + 1) fds (nset + 1))
                else
                  IsReady_from s nfds is_ready apply (i + 1) (if apply then fds - {i} else fds) nset)
         else IsReady_from s nfds is_ready apply (i + 1) fds nset)
      else Inr (nset, fds))"
  by pat_completeness auto
termination
  by (relation "measure (\<lambda>(s, nfds, is_ready, apply, i, fds, nset). nat (nfds - i))") auto

declare IsReady_from.simps [simp del]

definition IsReady ::
  "FileSystem \<Rightarrow> int \<Rightarrow> int set option \<Rightarrow> (nat \<Rightarrow> bool) \<Rightarrow> bool \<Rightarrow> fault + (int \<times> int set option)" where
  "IsReady s nfds fds is_ready apply =
     (case fds of
        None \<Rightarrow> Inr (0, None)
      | Some f \<Rightarrow> bind_fault (IsReady_from s nfds is_ready apply 0 f 0) (\<lambda>(n, f'). Inr (n, Some f')))"

text \<open>The condition of the \<^verbatim>\<open>while\<close> loop, with the short-circuit of \<^verbatim>\<open>||\<close>.\<close>

definition select_ready ::
  "extern \<Rightarrow> FileSystem \<Rightarrow> int \<Rightarrow> int set option \<Rightarrow> int set option \<Rightarrow> int set option \<Rightarrow> fault + bool" where
  "select_ready x s nfds readfds writefds exceptfds =
     bind_fault (IsReady s nfds readfds (is_read_ready x) False) (\<lambda>(r, _).
       if r \<noteq> 0 then Inr True
       else bind_fault (IsReady s nfds writefds (is_write_ready x) False) (\<lambda>(w, _).
         if w \<noteq> 0 then Inr True
         else bind_fault (IsReady s nfds exceptfds (is_exception x) False) (\<lambda>(e, _).
           Inr (e \<noteq> 0))))"

text \<open>The part of \<^verbatim>\<open>select\<close> after the loop.\<close>

definition select_apply ::
  "extern \<Rightarrow> FileSystem \<Rightarrow> int \<Rightarrow> int set option \<Rightarrow> int set option \<Rightarrow> int set option \<Rightarrow>
     fault + ((retval \<times> int set option \<times> int set option \<times> int set option) \<times> FileSystem)" where
  "select_apply x s nfds readfds writefds exceptfds =
     bind_fault (IsReady s nfds readfds (is_read_ready x) True) (\<lambda>(nread, readfds').
     bind_fault (IsReady s nfds writefds (is_write_ready x) True) (\<lambda>(nwrite, writefds').
     bind_fault (IsReady s nfds exceptfds (is_exception x) True) (\<lambda>(nexcpt, exceptfds').
       if nread < 0 \<or> nwrite < 0 \<or> nexcpt < 0
       then Inr ((Val (- 1), readfds', writefds', exceptfds'), s\<lparr>errno := EBADF\<rparr>)
       else Inr ((Val (nread + nwrite + nexcpt), readfds', writefds', exceptfds'), s))))"

text \<open>
  A wait on the condition variable gives the mutex up: when it returns, other threads
  may have changed the table and the streams. The environment of a call is the list of
  what each successive wait returns to: whether the wait succeeded, and the behaviour
  and state found on return. A call that waits when the list is used up is never woken.
\<close>

datatype wait_result = Woken | Wait_failed errno_t

type_synonym wakeup = "wait_result \<times> extern \<times> FileSystem"

fun fs_select ::
  "extern \<Rightarrow> int \<Rightarrow> int set option \<Rightarrow> int set option \<Rightarrow> int set option \<Rightarrow> (int \<times> int) option \<Rightarrow>
     FileSystem \<Rightarrow> wakeup list \<Rightarrow>
     fault + ((retval \<times> int set option \<times> int set option \<times> int set option) \<times> FileSystem)" where
  "fs_select x nfds readfds writefds exceptfds timeout s sched =
     (case select_ready x s nfds readfds writefds exceptfds of
        Inl f \<Rightarrow> Inl f
      | Inr True \<Rightarrow> select_apply x s nfds readfds writefds exceptfds
      | Inr False \<Rightarrow>
          (case sched of
             [] \<Rightarrow> Inl Blocked
           | (res, x', s') # rest \<Rightarrow>
               if timeout \<noteq> None then
                 (case res of
                    Woken \<Rightarrow> fs_select x' nfds readfds writefds exceptfds timeout s' rest
                  | Wait_failed e \<Rightarrow>
                      if e = ETIMEDOUT
                      then select_apply x' (s'\<lparr>errno := e\<rparr>) nfds readfds writefds exceptfds
                      else Inr ((Val (- 1), readfds, writefds, exceptfds), s'\<lparr>errno := e\<rparr>))
               else fs_select x' nfds readfds writefds exceptfds timeout s' rest))"

declare fs_select.simps [simp del]

subsection \<open>The host table\<close>

text \<open>
  \<^verbatim>\<open>htonl\<close> on the little-endian targets of Native Client reverses the four bytes.
  \<^verbatim>\<open>unsigned long\<close> has 32 bits there.
\<close>

definition htonl :: "32 word \<Rightarrow> 32 word" where
  "htonl w = push_bit 24 (w AND 0xFF) OR push_bit 8 (w AND 0xFF00)
             OR (drop_bit 8 w AND 0xFF00) OR (drop_bit 24 w AND 0xFF)"

definition AddHostAddress :: "string \<Rightarrow> 32 word \<Rightarrow> FileSystem \<Rightarrow> FileSystem" where
  "AddHostAddress name addr s =
     (let addr' = htonl addr
      in s\<lparr>hosts := (hosts s)(name \<mapsto> addr'), addrs := (addrs s)(addr' \<mapsto> name)\<rparr>)"

text \<open>
  The new address goes through an \<^verbatim>\<open>int\<close> local (\<open>sint\<close>) before it is stored as an
  \<^verbatim>\<open>unsigned long\<close> (\<open>word_of_int\<close>).
\<close>

definition gethostbyname :: "string \<Rightarrow> FileSystem \<Rightarrow> 32 word \<times> FileSystem" where
  "gethostbyname name s =
     (case hosts s name of
        Some a \<Rightarrow> (a, s)
      | None \<Rightarrow>
          let addr = sint (htonl (first_unused_addr s));
              s1 = s\<lparr>first_unused_addr := first_unused_addr s + 1\<rparr>;
              s2 = s1\<lparr>hosts := (hosts s1)(name \<mapsto> word_of_int addr)\<rparr>;
              s3 = s2\<lparr>addrs := (addrs s2)(word_of_int addr \<mapsto> name)\<rparr>
          in (word_of_int addr, s3))"

subsection \<open>connect\<close>

text \<open>\<^verbatim>\<open>inet_ntoa\<close>: the four bytes in memory order, in decimal, with dots.\<close>

definition digit_char :: "nat \<Rightarrow> char" where
  "digit_char d = ''0123456789'' ! d"

definition dec_byte :: "nat \<Rightarrow> string" where
  "dec_byte n =
     (if 100 \<le> n then [digit_char (n div 100)] else []) @
     (if 10 \<le> n then [digit_char (n div 10 mod 10)] else []) @
     [digit_char (n mod 10)]"

definition inet_ntoa :: "32 word \<Rightarrow> string" where
  "inet_ntoa a =
     dec_byte (unat (a AND 0xFF)) @ ''.'' @
     dec_byte (unat (drop_bit 8 a AND 0xFF)) @ ''.'' @
     dec_byte (unat (drop_bit 16 a AND 0xFF)) @ ''.'' @
     dec_byte (unat (drop_bit 24 a AND 0xFF))"

definition fs_connect :: "extern \<Rightarrow> int \<Rightarrow> 32 word \<Rightarrow> 16 word \<Rightarrow> FileSystem \<Rightarrow> fault + (retval \<times> FileSystem)" where
  "fs_connect x fd addr port s =
     (if fmlookup (streams s) fd = None then Inr (Val (- 1), s\<lparr>errno := EBADF\<rparr>)
      else
        let host = (case addrs s addr of Some name \<Rightarrow> name | None \<Rightarrow> inet_ntoa addr);
            socket = next_obj s;
            s1 = log_call (New_TCPSocket socket fd) (s\<lparr>next_obj := Suc (next_obj s)\<rparr>);
            s2 = log_call (Call_connect socket host port) s1
        in if \<not> TCPSocket_connect x socket host port
           then bind_fault (member_call (Obj socket) Call_release (s2\<lparr>errno := ECONNREFUSED\<rparr>))
                  (\<lambda>s3. Inr (Val (- 1), s3))
           else bind_fault (AddFileStream x fd (Obj socket) s2) (\<lambda>s3. Inr (Val 0, s3)))"

subsection \<open>Construction\<close>

definition AddPathHandler :: "extern \<Rightarrow> string \<Rightarrow> PathHandler_ptr \<Rightarrow> FileSystem \<Rightarrow> fault + FileSystem" where
  "AddPathHandler x path handler s =
     (if \<not> NDEBUG x \<and> paths s path \<noteq> None then Inl AssertionFailed
      else Inr (s\<lparr>paths := (paths s)(path \<mapsto> handler)\<rparr>))"

text \<open>
  The constructor, without the request to the browser's file system: the three
  \<^verbatim>\<open>JsFile\<close> objects are the first three objects, the three device handlers the first
  three handlers.
\<close>

definition FileSystem_empty :: "extern \<Rightarrow> FileSystem" where
  "FileSystem_empty x =
     \<lparr>paths = Map.empty, streams = fmempty, hosts = Map.empty, addrs = Map.empty,
      first_unused_addr = kFirstAddr x, errno = Errno_other 0, calls = [], next_obj = 3\<rparr>"

definition FileSystem_ctor :: "extern \<Rightarrow> fault + FileSystem" where
  "FileSystem_ctor x =
     bind_fault (AddFileStream x 0 (Obj 0) (FileSystem_empty x)) (\<lambda>s1.
     bind_fault (AddFileStream x 1 (Obj 1) s1) (\<lambda>s2.
     bind_fault (AddFileStream x 2 (Obj 2) s2) (\<lambda>s3.
     bind_fault (AddPathHandler x ''/dev/null'' (Handler 0) s3) (\<lambda>s4.
     bind_fault (AddPathHandler x ''/dev/tty'' (Handler 1) s4) (\<lambda>s5.
     bind_fault (AddPathHandler x ''/dev/random'' (Handler 2) s5) (\<lambda>s6.
     Inr (AddHostAddress ''localhost'' 0x7F000001 s6)))))))"

subsection \<open>Readiness of a descriptor\<close>

text \<open>
  The notions the properties of \<^verbatim>\<open>select\<close> are stated with. A descriptor is ready for a
  query when its slot holds a stream that answers the query with true. \<open>in_fdset\<close> is
  \<^verbatim>\<open>FD_ISSET\<close> behind the null test of \<^verbatim>\<open>IsReady\<close>; \<open>ready_members\<close> are the members of a
  set below \<open>nfds\<close> that are ready; \<open>cleared\<close> is the set without its members below
  \<open>nfds\<close> that are not ready.
\<close>

definition ready_at :: "FileSystem \<Rightarrow> (nat \<Rightarrow> bool) \<Rightarrow> int \<Rightarrow> bool" where
  "ready_at s is_ready fd = (case GetStream s fd of Obj a \<Rightarrow> is_ready a | _ \<Rightarrow> False)"

definition in_fdset :: "int \<Rightarrow> int set option \<Rightarrow> bool" where
  "in_fdset fd fds = (case fds of None \<Rightarrow> False | Some f \<Rightarrow> fd \<in> f)"

definition ready_members :: "FileSystem \<Rightarrow> int \<Rightarrow> (nat \<Rightarrow> bool) \<Rightarrow> int set option \<Rightarrow> int set" where
  "ready_members s nfds is_ready fds =
     {j. in_fdset j fds \<and> 0 \<le> j \<and> j < nfds \<and> ready_at s is_ready j}"

definition cleared :: "FileSystem \<Rightarrow> int \<Rightarrow> (nat \<Rightarrow> bool) \<Rightarrow> int set option \<Rightarrow> int set option" where
  "cleared s nfds is_ready fds =
     map_option (\<lambda>f. {j \<in> f. 0 \<le> j \<and> j < nfds \<longrightarrow> ready_at s is_ready j}) fds"

text \<open>The descriptors a call of \<^verbatim>\<open>select\<close> looks at: below \<open>nfds\<close> and in one of the sets.\<close>

definition queried :: "int \<Rightarrow> int set option \<Rightarrow> int set option \<Rightarrow> int set option \<Rightarrow> int \<Rightarrow> bool" where
  "queried nfds readfds writefds exceptfds j =
     (0 \<le> j \<and> j < nfds \<and> (in_fdset j readfds \<or> in_fdset j writefds \<or> in_fdset j exceptfds))"

text \<open>
  Nothing is ready: every descriptor looked at has a stream, and no member of a set is
  ready for the query of that set.
\<close>

definition nothing_ready ::
  "extern \<Rightarrow> FileSystem \<Rightarrow> int \<Rightarrow> int set option \<Rightarrow> int set option \<Rightarrow> int set option \<Rightarrow> bool" where
  "nothing_ready x s nfds readfds writefds exceptfds =
     ((\<forall>j. queried nfds readfds writefds exceptfds j \<longrightarrow> (\<exists>a. GetStream s j = Obj a))
      \<and> ready_members s nfds (is_read_ready x) readfds = {}
      \<and> ready_members s nfds (is_write_ready x) writefds = {}
      \<and> ready_members s nfds (is_exception x) exceptfds = {})"

text \<open>The number \<^verbatim>\<open>select\<close> returns: the ready members of the three sets together.\<close>

definition ready_count ::
  "extern \<Rightarrow> FileSystem \<Rightarrow> int \<Rightarrow> int set option \<Rightarrow> int set option \<Rightarrow> int set option \<Rightarrow> int" where
  "ready_count x s nfds readfds writefds exceptfds =
     int (card (ready_members s nfds (is_read_ready x) readfds))
     + int (card (ready_members s nfds (is_write_ready x) writefds))
     + int (card (ready_members s nfds (is_exception x) exceptfds))"

text \<open>
  Wake-ups that leave the call waiting: each returns to a state in which nothing is
  ready, and a timed wait among them has not failed.
\<close>

definition quiet_wakeups ::
  "bool \<Rightarrow> int \<Rightarrow> int set option \<Rightarrow> int set option \<Rightarrow> int set option \<Rightarrow> wakeup list \<Rightarrow> bool" where
  "quiet_wakeups timed nfds readfds writefds exceptfds ws =
     (\<forall>(res, x', s')\<in>set ws.
        nothing_ready x' s' nfds readfds writefds exceptfds \<and> (timed \<longrightarrow> res = Woken))"

subsection \<open>Repeated calls\<close>

text \<open>\<open>n\<close> successive calls \<^verbatim>\<open>close(fd)\<close>, with the list of their return values.\<close>

fun close_times :: "extern \<Rightarrow> int \<Rightarrow> nat \<Rightarrow> FileSystem \<Rightarrow> fault + (retval list \<times> FileSystem)" where
  "close_times x fd 0 s = Inr ([], s)"
| "close_times x fd (Suc n) s =
     bind_fault (fs_close x fd s) (\<lambda>(r, s').
     bind_fault (close_times x fd n s') (\<lambda>(rs, s''). Inr (r # rs, s'')))"

text \<open>Successive calls \<^verbatim>\<open>gethostbyname\<close> on a list of names.\<close>

fun gethostbyname_all :: "string list \<Rightarrow> FileSystem \<Rightarrow> FileSystem" where
  "gethostbyname_all [] s = s"
| "gethostbyname_all (name # names) s = gethostbyname_all names (snd (gethostbyname name s))"

subsection \<open>Agreement of the two host maps\<close>

text \<open>Every name in \<^verbatim>\<open>hosts_\<close> is what \<^verbatim>\<open>addrs_\<close> gives for its address.\<close>

definition hosts_consistent :: "FileSystem \<Rightarrow> bool" where
  "hosts_consistent s = (\<forall>name a. hosts s name = Some a \<longrightarrow> addrs s a = Some name)"

subsection \<open>A concrete environment and state\<close>

text \<open>
  An environment with active assertions and offset 3, and a state with the three
  standard streams, two more descriptors in use and \<^verbatim>\<open>localhost\<close> in the host table.
  The theorems below are run on them.
\<close>

definition ex_extern :: extern where
  "ex_extern =
     \<lparr>NDEBUG = False, kFileIDOffset = 3, kFirstAddr = 0,
      PathHandler_open = (\<lambda>h fd p oflag. Obj (100 + h)),
      FileStream_dup = (\<lambda>a fd. Obj a),
      FileStream_io = (\<lambda>a operation. (Val 0, [])),
      is_read_ready = (\<lambda>a. a = 3),
      is_write_ready = (\<lambda>a. a = 4),
      is_exception = (\<lambda>a. False),
      TCPSocket_connect = (\<lambda>a host port. True)\<rparr>"

definition ex_fs :: FileSystem where
  "ex_fs =
     \<lparr>paths = [''/dev/null'' \<mapsto> Handler 0],
      streams = fmupd 4 (Obj 4) (fmupd 3 (Obj 3) (fmupd 2 (Obj 2) (fmupd 1 (Obj 1) (fmupd 0 (Obj 0) fmempty)))),
      hosts = [''localhost'' \<mapsto> htonl 0x7F000001],
      addrs = [htonl 0x7F000001 \<mapsto> ''localhost''],
      first_unused_addr = 0, errno = Errno_other 0, calls = [], next_obj = 5\<rparr>"


section \<open>Basic facts about the table primitives\<close>

lemma bind_fault_Inr [simp]: "bind_fault (Inr v) f = f v"
  by (simp add: bind_fault_def)

lemma bind_fault_Inl [simp]: "bind_fault (Inl e) f = Inl e"
  by (simp add: bind_fault_def)

lemma IsKnowDescriptor_lookup: "IsKnowDescriptor s fd \<longleftrightarrow> fmlookup (streams s) fd \<noteq> None"
  by (auto simp: IsKnowDescriptor_def fmlookup_dom_iff)

lemma first_unused_from_lower: "fd0 \<le> GetFirstUnusedDescriptor_from s fd0"
proof (induction s fd0 rule: GetFirstUnusedDescriptor_from.induct)
  case (1 s fd)
  show ?case
  proof (cases "IsKnowDescriptor s fd")
    case True
    with 1 have "fd + 1 \<le> GetFirstUnusedDescriptor_from s (fd + 1)" by simp
    with True show ?thesis by (simp add: GetFirstUnusedDescriptor_from.simps [of s fd])
  next
    case False
    then show ?thesis by (simp add: GetFirstUnusedDescriptor_from.simps [of s fd])
  qed
qed

lemma first_unused_from_free: "\<not> IsKnowDescriptor s (GetFirstUnusedDescriptor_from s fd0)"
proof (induction s fd0 rule: GetFirstUnusedDescriptor_from.induct)
  case (1 s fd)
  show ?case
  proof (cases "IsKnowDescriptor s fd")
    case True
    with 1 show ?thesis by (simp add: GetFirstUnusedDescriptor_from.simps [of s fd])
  next
    case False
    then show ?thesis by (simp add: GetFirstUnusedDescriptor_from.simps [of s fd])
  qed
qed

lemma first_unused_from_below:
  "fd0 \<le> k \<Longrightarrow> k < GetFirstUnusedDescriptor_from s fd0 \<Longrightarrow> IsKnowDescriptor s k"
proof (induction s fd0 rule: GetFirstUnusedDescriptor_from.induct)
  case (1 s fd)
  show ?case
  proof (cases "IsKnowDescriptor s fd")
    case True
    show ?thesis
    proof (cases "k = fd")
      case True
      with \<open>IsKnowDescriptor s fd\<close> show ?thesis by simp
    next
      case False
      with "1.prems" have "fd + 1 \<le> k" by simp
      moreover have "k < GetFirstUnusedDescriptor_from s (fd + 1)"
        using "1.prems" True by (simp add: GetFirstUnusedDescriptor_from.simps [of s fd])
      ultimately show ?thesis using "1.IH" True by simp
    qed
  next
    case False
    with "1.prems" show ?thesis by (simp add: GetFirstUnusedDescriptor_from.simps [of s fd])
  qed
qed

lemma AddFileStream_free:
  "fmlookup (streams s) fd = None \<or> fmlookup (streams s) fd = Some NULL \<Longrightarrow>
   AddFileStream x fd p s = Inr (s\<lparr>streams := fmupd fd p (streams s)\<rparr>)"
  by (auto simp: AddFileStream_def)

lemma RemoveFileStream_present:
  "fmlookup (streams s) fd \<noteq> None \<Longrightarrow>
   RemoveFileStream x fd s = Inr (s\<lparr>streams := fmdrop fd (streams s)\<rparr>)"
  by (auto simp: RemoveFileStream_def)

lemma GetStream_Some: "fmlookup (streams s) fd = Some p \<Longrightarrow> GetStream s fd = p"
  by (simp add: GetStream_def)

lemma GetStream_None: "fmlookup (streams s) fd = None \<Longrightarrow> GetStream s fd = NULL"
  by (simp add: GetStream_def)

lemma first_unused_lookup: "fmlookup (streams s) (GetFirstUnusedDescriptor x s) = None"
  using first_unused_from_free [of s "kFileIDOffset x"]
  by (simp add: GetFirstUnusedDescriptor_def IsKnowDescriptor_lookup)

section \<open>Descriptor allocation\<close>

text \<open>
  Claim C1. In every state the descriptor that \<^verbatim>\<open>GetFirstUnusedDescriptor\<close> returns is
  at or above \<^verbatim>\<open>kFileIDOffset\<close>, is absent from the table, and every integer between the
  offset and it is present: it is the smallest free descriptor from the offset on. The
  reservation \<^verbatim>\<open>AddFileStream(fd, NULL)\<close> that \<^verbatim>\<open>open\<close>, \<^verbatim>\<open>dup\<close> and \<^verbatim>\<open>socket\<close>
  perform on it succeeds and stores the null marker; \<^verbatim>\<open>socket\<close> returns it, \<^verbatim>\<open>open\<close> and
  \<^verbatim>\<open>dup\<close> bind it when the handler or the stream gives a stream. No descriptor already
  in the table is the one handed out, and with an offset above 2 the descriptors 0, 1 and
  2 are never handed out.
\<close>

theorem allocation_lowest_free:
  "let fd = GetFirstUnusedDescriptor x s in
     kFileIDOffset x \<le> fd
   \<and> fmlookup (streams s) fd = None
   \<and> (\<forall>k. kFileIDOffset x \<le> k \<and> k < fd \<longrightarrow> fmlookup (streams s) k \<noteq> None)
   \<and> AddFileStream x fd NULL s = Inr (s\<lparr>streams := fmupd fd NULL (streams s)\<rparr>)
   \<and> fs_socket x s = Inr (fd, s\<lparr>streams := fmupd fd NULL (streams s)\<rparr>)
   \<and> (\<forall>p h oflag. paths s p = Some (Handler h) \<and> PathHandler_open x h fd p oflag \<noteq> NULL \<longrightarrow>
        fs_open x p oflag s =
          Inr ((Val 0, Some fd),
               s\<lparr>streams := fmupd fd (PathHandler_open x h fd p oflag) (streams s),
                 calls := calls s @ [Call_open h fd p oflag]\<rparr>))
   \<and> (\<forall>src a. fmlookup (streams s) src = Some (Obj a) \<and> FileStream_dup x a fd \<noteq> NULL \<longrightarrow>
        fs_dup x src s =
          Inr ((Val 0, Some fd),
               s\<lparr>streams := fmupd fd (FileStream_dup x a fd) (streams s),
                 calls := calls s @ [Call_dup a fd]\<rparr>))
   \<and> (\<forall>k. fmlookup (streams s) k \<noteq> None \<longrightarrow> k \<noteq> fd)
   \<and> (2 < kFileIDOffset x \<longrightarrow> fd \<noteq> 0 \<and> fd \<noteq> 1 \<and> fd \<noteq> 2)"
proof -
  define fd where "fd = GetFirstUnusedDescriptor x s"
  have lower: "kFileIDOffset x \<le> fd"
    unfolding fd_def GetFirstUnusedDescriptor_def by (rule first_unused_from_lower)
  have free: "fmlookup (streams s) fd = None"
    unfolding fd_def by (rule first_unused_lookup)
  have below: "\<forall>k. kFileIDOffset x \<le> k \<and> k < fd \<longrightarrow> fmlookup (streams s) k \<noteq> None"
    using first_unused_from_below [of "kFileIDOffset x" _ s]
    by (auto simp: fd_def GetFirstUnusedDescriptor_def IsKnowDescriptor_lookup)
  have reserve: "AddFileStream x fd NULL s = Inr (s\<lparr>streams := fmupd fd NULL (streams s)\<rparr>)"
    using free by (simp add: AddFileStream_free)
  have sock: "fs_socket x s = Inr (fd, s\<lparr>streams := fmupd fd NULL (streams s)\<rparr>)"
    using reserve by (simp add: fs_socket_def fd_def [symmetric])
  have opn: "fs_open x p oflag s =
          Inr ((Val 0, Some fd),
               s\<lparr>streams := fmupd fd (PathHandler_open x h fd p oflag) (streams s),
                 calls := calls s @ [Call_open h fd p oflag]\<rparr>)"
    if "paths s p = Some (Handler h)" and "PathHandler_open x h fd p oflag \<noteq> NULL" for p h oflag
    using that reserve
    by (simp add: fs_open_def fd_def [symmetric] handler_open_def log_call_def AddFileStream_def)
  have dp: "fs_dup x src s =
          Inr ((Val 0, Some fd),
               s\<lparr>streams := fmupd fd (FileStream_dup x a fd) (streams s),
                 calls := calls s @ [Call_dup a fd]\<rparr>)"
    if "fmlookup (streams s) src = Some (Obj a)" and "FileStream_dup x a fd \<noteq> NULL" for src a
    using that reserve
    by (simp add: fs_dup_def fd_def [symmetric] GetStream_Some stream_dup_def log_call_def AddFileStream_def)
  have distinct: "\<forall>k. fmlookup (streams s) k \<noteq> None \<longrightarrow> k \<noteq> fd"
    using free by auto
  have low: "2 < kFileIDOffset x \<longrightarrow> fd \<noteq> 0 \<and> fd \<noteq> 1 \<and> fd \<noteq> 2"
    using lower by auto
  show ?thesis
    unfolding Let_def fd_def [symmetric]
    using lower free below reserve sock opn dp distinct low by blast
qed


text \<open>On the concrete state, where 3 and 4 are in use, the descriptor is 5.\<close>

lemma ex_first_unused: "GetFirstUnusedDescriptor ex_extern ex_fs = 5"
  by (simp add: GetFirstUnusedDescriptor_def ex_extern_def ex_fs_def
      GetFirstUnusedDescriptor_from.simps IsKnowDescriptor_def)

theorem allocation_lowest_free_witness:
  "GetFirstUnusedDescriptor ex_extern ex_fs = 5
   \<and> fs_socket ex_extern ex_fs = Inr (5, ex_fs\<lparr>streams := fmupd 5 NULL (streams ex_fs)\<rparr>)
   \<and> paths ex_fs ''/dev/null'' = Some (Handler 0)
   \<and> PathHandler_open ex_extern 0 5 ''/dev/null'' 1 \<noteq> NULL
   \<and> fst (projr (fs_open ex_extern ''/dev/null'' 1 ex_fs)) = (Val 0, Some 5)
   \<and> fmlookup (streams ex_fs) 0 = Some (Obj 0) \<and> FileStream_dup ex_extern 0 5 \<noteq> NULL
   \<and> fst (projr (fs_dup ex_extern 0 ex_fs)) = (Val 0, Some 5)
   \<and> kFileIDOffset ex_extern \<le> 3 \<and> (3::int) < 5 \<and> fmlookup (streams ex_fs) 3 \<noteq> None
   \<and> 2 < kFileIDOffset ex_extern"
proof -
  have p: "paths ex_fs ''/dev/null'' = Some (Handler 0)"
    by (simp add: ex_fs_def)
  have h: "PathHandler_open ex_extern 0 5 ''/dev/null'' 1 \<noteq> NULL"
    by (simp add: ex_extern_def)
  have l: "fmlookup (streams ex_fs) 0 = Some (Obj 0)"
    by (simp add: ex_fs_def)
  have d: "FileStream_dup ex_extern 0 5 \<noteq> NULL"
    by (simp add: ex_extern_def)
  have k: "kFileIDOffset ex_extern = 3"
    by (simp add: ex_extern_def)
  have l3: "fmlookup (streams ex_fs) 3 \<noteq> None"
    by (simp add: ex_fs_def)
  from allocation_lowest_free [of ex_extern ex_fs] p h l d k l3
  show ?thesis
    unfolding Let_def ex_first_unused by simp
qed


section \<open>Failures of open\<close>

lemma reserve_then_remove:
  "fmlookup m fd = None \<Longrightarrow> fmdrop fd (fmupd fd p m) = m"
  by (simp add: fmdrop_fmupd_same fmdrop_idle fmdom_notI)

text \<open>
  Claim C5. \<^verbatim>\<open>open\<close> on a path without a handler returns \<^verbatim>\<open>ENOENT\<close> and changes
  nothing. On a registered path whose handler returns no stream it returns \<^verbatim>\<open>EACCES\<close>;
  the descriptor reserved for the call is removed again, so the table after the call is
  the table before it, and the only change to the state is the recorded call of the
  handler.
\<close>

theorem open_failures_leave_table:
  "(paths s p = None \<longrightarrow> fs_open x p oflag s = Inr ((Err ENOENT, None), s))
   \<and> (\<forall>h. paths s p = Some (Handler h)
          \<and> PathHandler_open x h (GetFirstUnusedDescriptor x s) p oflag = NULL \<longrightarrow>
        fs_open x p oflag s =
          Inr ((Err EACCES, None),
               s\<lparr>calls := calls s @ [Call_open h (GetFirstUnusedDescriptor x s) p oflag]\<rparr>)
        \<and> streams (snd (projr (fs_open x p oflag s))) = streams s)"
proof -
  have miss: "fs_open x p oflag s = Inr ((Err ENOENT, None), s)" if "paths s p = None"
    using that by (simp add: fs_open_def)
  have declined: "fs_open x p oflag s =
          Inr ((Err EACCES, None),
               s\<lparr>calls := calls s @ [Call_open h (GetFirstUnusedDescriptor x s) p oflag]\<rparr>)"
    if reg: "paths s p = Some (Handler h)"
      and null: "PathHandler_open x h (GetFirstUnusedDescriptor x s) p oflag = NULL" for h
  proof -
    have free: "fmlookup (streams s) (GetFirstUnusedDescriptor x s) = None"
      by (rule first_unused_lookup)
    show ?thesis
      using reg null free
      by (simp add: fs_open_def Let_def AddFileStream_free handler_open_def log_call_def
          RemoveFileStream_def reserve_then_remove)
  qed
  show ?thesis
    using miss declined by simp
qed

text \<open>
  On the concrete state: a path that is not registered, and \<^verbatim>\<open>/dev/null\<close> with a handler
  that returns no stream.
\<close>

theorem open_failures_leave_table_witness:
  "paths ex_fs ''/nonexistent'' = None
   \<and> fs_open ex_extern ''/nonexistent'' 0 ex_fs = Inr ((Err ENOENT, None), ex_fs)
   \<and> paths ex_fs ''/dev/null'' = Some (Handler 0)
   \<and> PathHandler_open (ex_extern\<lparr>PathHandler_open := \<lambda>h fd p oflag. NULL\<rparr>) 0 5 ''/dev/null'' 1 = NULL
   \<and> fs_open (ex_extern\<lparr>PathHandler_open := \<lambda>h fd p oflag. NULL\<rparr>) ''/dev/null'' 1 ex_fs =
       Inr ((Err EACCES, None), ex_fs\<lparr>calls := [Call_open 0 5 ''/dev/null'' 1]\<rparr>)
   \<and> streams (snd (projr (fs_open (ex_extern\<lparr>PathHandler_open := \<lambda>h fd p oflag. NULL\<rparr>)
         ''/dev/null'' 1 ex_fs))) = streams ex_fs"
proof -
  have fd: "GetFirstUnusedDescriptor (ex_extern\<lparr>PathHandler_open := \<lambda>h fd p oflag. NULL\<rparr>) ex_fs = 5"
    by (simp add: GetFirstUnusedDescriptor_def ex_extern_def ex_fs_def
        GetFirstUnusedDescriptor_from.simps IsKnowDescriptor_def)
  have none: "paths ex_fs ''/nonexistent'' = None"
    by (simp add: ex_fs_def)
  have reg: "paths ex_fs ''/dev/null'' = Some (Handler 0)"
    by (simp add: ex_fs_def)
  have c: "calls ex_fs = []"
    by (simp add: ex_fs_def)
  from open_failures_leave_table [where s = ex_fs and p = "''/nonexistent''" and x = ex_extern and oflag = 0]
    open_failures_leave_table [where s = ex_fs and p = "''/dev/null''" and oflag = 1
      and x = "ex_extern\<lparr>PathHandler_open := \<lambda>h fd p oflag. NULL\<rparr>"]
    none reg
  show ?thesis
    unfolding fd by (simp add: c)
qed

section \<open>Reserved, bad and absent descriptors\<close>

lemma fs_close_absent:
  "fmlookup (streams s) fd = None \<Longrightarrow> fs_close x fd s = Inr (Err EBADF, s)"
  by (simp add: fs_close_def IsKnowDescriptor_lookup)

lemma close_times_absent:
  "fmlookup (streams s) fd = None \<Longrightarrow> close_times x fd n s = Inr (replicate n (Err EBADF), s)"
  by (induction n) (simp_all add: fs_close_absent)

text \<open>
  Claim C6. On a descriptor whose slot holds the null marker (reserved) or
  \<^verbatim>\<open>kBadFileStream\<close>, \<^verbatim>\<open>read\<close>, \<^verbatim>\<open>write\<close>, \<^verbatim>\<open>seek\<close>, \<^verbatim>\<open>fstat\<close>, \<^verbatim>\<open>getdents\<close> and
  \<^verbatim>\<open>dup\<close> return \<^verbatim>\<open>EBADF\<close> and leave the state as it is; \<^verbatim>\<open>isatty\<close> returns 0 and
  \<^verbatim>\<open>fcntl\<close> and \<^verbatim>\<open>ioctl\<close> return -1, with \<^verbatim>\<open>errno\<close> set to \<^verbatim>\<open>EBADF\<close> and the table
  as it is; \<^verbatim>\<open>close\<close> returns 0 and removes the slot, calling nothing on a stream. On a
  descriptor absent from the table \<^verbatim>\<open>close\<close> returns \<^verbatim>\<open>EBADF\<close> and leaves the state as
  it is, and so do any number of successive calls.
\<close>

theorem unusable_descriptor_operations:
  "(fmlookup (streams s) fd = Some NULL \<or> fmlookup (streams s) fd = Some kBadFileStream \<longrightarrow>
       fs_read x fd count s = Inr ((Err EBADF, []), s)
     \<and> fs_write x fd buf s = Inr ((Err EBADF, []), s)
     \<and> fs_seek x fd offset whence s = Inr ((Err EBADF, []), s)
     \<and> fs_fstat x fd s = Inr ((Err EBADF, []), s)
     \<and> fs_getdents x fd count s = Inr ((Err EBADF, []), s)
     \<and> fs_isatty x fd s = Inr ((Val 0, []), s\<lparr>errno := EBADF\<rparr>)
     \<and> fs_fcntl x fd cmd ap s = Inr ((Val (- 1), []), s\<lparr>errno := EBADF\<rparr>)
     \<and> fs_ioctl x fd request ap s = Inr ((Val (- 1), []), s\<lparr>errno := EBADF\<rparr>)
     \<and> fs_dup x fd s = Inr ((Err EBADF, None), s)
     \<and> fs_close x fd s = Inr (Val 0, s\<lparr>streams := fmdrop fd (streams s)\<rparr>))
   \<and> (fmlookup (streams s) fd = None \<longrightarrow>
       fs_close x fd s = Inr (Err EBADF, s)
     \<and> close_times x fd n s = Inr (replicate n (Err EBADF), s))"
proof -
  have unusable:
    "fs_read x fd count s = Inr ((Err EBADF, []), s)
     \<and> fs_write x fd buf s = Inr ((Err EBADF, []), s)
     \<and> fs_seek x fd offset whence s = Inr ((Err EBADF, []), s)
     \<and> fs_fstat x fd s = Inr ((Err EBADF, []), s)
     \<and> fs_getdents x fd count s = Inr ((Err EBADF, []), s)
     \<and> fs_isatty x fd s = Inr ((Val 0, []), s\<lparr>errno := EBADF\<rparr>)
     \<and> fs_fcntl x fd cmd ap s = Inr ((Val (- 1), []), s\<lparr>errno := EBADF\<rparr>)
     \<and> fs_ioctl x fd request ap s = Inr ((Val (- 1), []), s\<lparr>errno := EBADF\<rparr>)
     \<and> fs_dup x fd s = Inr ((Err EBADF, None), s)
     \<and> fs_close x fd s = Inr (Val 0, s\<lparr>streams := fmdrop fd (streams s)\<rparr>)"
    if slot: "fmlookup (streams s) fd = Some NULL \<or> fmlookup (streams s) fd = Some kBadFileStream"
  proof -
    from slot have g: "GetStream s fd = NULL \<or> GetStream s fd = kBadFileStream"
      by (auto simp: GetStream_def)
    from slot have known: "IsKnowDescriptor s fd"
      by (auto simp: IsKnowDescriptor_lookup)
    from slot have present: "fmlookup (streams s) fd \<noteq> None"
      by auto
    have io: "fs_read x fd count s = Inr ((Err EBADF, []), s)"
      "fs_write x fd buf s = Inr ((Err EBADF, []), s)"
      "fs_seek x fd offset whence s = Inr ((Err EBADF, []), s)"
      "fs_fstat x fd s = Inr ((Err EBADF, []), s)"
      "fs_getdents x fd count s = Inr ((Err EBADF, []), s)"
      using g by (auto simp: fs_read_def fs_write_def fs_seek_def fs_fstat_def fs_getdents_def)
    have ctl: "fs_isatty x fd s = Inr ((Val 0, []), s\<lparr>errno := EBADF\<rparr>)"
      "fs_fcntl x fd cmd ap s = Inr ((Val (- 1), []), s\<lparr>errno := EBADF\<rparr>)"
      "fs_ioctl x fd request ap s = Inr ((Val (- 1), []), s\<lparr>errno := EBADF\<rparr>)"
      using g by (auto simp: fs_isatty_def fs_fcntl_def fs_ioctl_def)
    have dp: "fs_dup x fd s = Inr ((Err EBADF, None), s)"
      using g by (auto simp: fs_dup_def)
    have cl: "fs_close x fd s = Inr (Val 0, s\<lparr>streams := fmdrop fd (streams s)\<rparr>)"
      using g known present by (auto simp: fs_close_def RemoveFileStream_present)
    from io ctl dp cl show ?thesis by simp
  qed
  have absent: "fs_close x fd s = Inr (Err EBADF, s)
     \<and> close_times x fd n s = Inr (replicate n (Err EBADF), s)"
    if "fmlookup (streams s) fd = None"
    using that by (simp add: fs_close_absent close_times_absent)
  from unusable absent show ?thesis by blast
qed


text \<open>
  On the concrete state with descriptor 5 reserved and descriptor 6 bound to
  \<^verbatim>\<open>kBadFileStream\<close>; descriptor 9 is absent.
\<close>

theorem unusable_descriptor_operations_witness:
  "fmlookup (streams (ex_fs\<lparr>streams := fmupd 6 kBadFileStream (fmupd 5 NULL (streams ex_fs))\<rparr>)) 5 = Some NULL
   \<and> fs_read ex_extern 5 10 (ex_fs\<lparr>streams := fmupd 6 kBadFileStream (fmupd 5 NULL (streams ex_fs))\<rparr>) =
       Inr ((Err EBADF, []), ex_fs\<lparr>streams := fmupd 6 kBadFileStream (fmupd 5 NULL (streams ex_fs))\<rparr>)
   \<and> fmlookup (streams (ex_fs\<lparr>streams := fmupd 6 kBadFileStream (fmupd 5 NULL (streams ex_fs))\<rparr>)) 6 = Some kBadFileStream
   \<and> fs_write ex_extern 6 ''abc'' (ex_fs\<lparr>streams := fmupd 6 kBadFileStream (fmupd 5 NULL (streams ex_fs))\<rparr>) =
       Inr ((Err EBADF, []), ex_fs\<lparr>streams := fmupd 6 kBadFileStream (fmupd 5 NULL (streams ex_fs))\<rparr>)
   \<and> fs_close ex_extern 6 (ex_fs\<lparr>streams := fmupd 6 kBadFileStream (fmupd 5 NULL (streams ex_fs))\<rparr>) =
       Inr (Val 0, ex_fs\<lparr>streams := fmupd 5 NULL (streams ex_fs)\<rparr>)
   \<and> fmlookup (streams ex_fs) 9 = None
   \<and> close_times ex_extern 9 3 ex_fs = Inr ([Err EBADF, Err EBADF, Err EBADF], ex_fs)"
proof -
  have l5: "fmlookup (streams (ex_fs\<lparr>streams := fmupd 6 kBadFileStream (fmupd 5 NULL (streams ex_fs))\<rparr>)) 5 = Some NULL"
    by simp
  have l6: "fmlookup (streams (ex_fs\<lparr>streams := fmupd 6 kBadFileStream (fmupd 5 NULL (streams ex_fs))\<rparr>)) 6 = Some kBadFileStream"
    by simp
  have l9: "fmlookup (streams ex_fs) 9 = None"
    by (simp add: ex_fs_def)
  have l6': "fmlookup (streams ex_fs) 6 = None"
    by (simp add: ex_fs_def)
  have dr: "fmdrop 6 (fmupd 6 kBadFileStream (fmupd 5 NULL (streams ex_fs))) = fmupd 5 NULL (streams ex_fs)"
    using l6' by (simp add: reserve_then_remove)
  from unusable_descriptor_operations [where fd = 5 and x = ex_extern and count = 10
      and s = "ex_fs\<lparr>streams := fmupd 6 kBadFileStream (fmupd 5 NULL (streams ex_fs))\<rparr>"]
    unusable_descriptor_operations [where fd = 6 and x = ex_extern and buf = "''abc''"
      and s = "ex_fs\<lparr>streams := fmupd 6 kBadFileStream (fmupd 5 NULL (streams ex_fs))\<rparr>"]
    unusable_descriptor_operations [where fd = 9 and x = ex_extern and s = ex_fs and n = 3]
    l5 l6 l9
  show ?thesis
    by (simp add: dr numeral_3_eq_3)
qed


section \<open>socket and connect\<close>

lemma fs_connect_refused:
  assumes "fmlookup (streams s) fd \<noteq> None"
    and "host = (case addrs s addr of Some name \<Rightarrow> name | None \<Rightarrow> inet_ntoa addr)"
    and "\<not> TCPSocket_connect x (next_obj s) host port"
  shows "fs_connect x fd addr port s =
     Inr (Val (- 1),
          s\<lparr>errno := ECONNREFUSED, next_obj := Suc (next_obj s),
            calls := calls s @ [New_TCPSocket (next_obj s) fd, Call_connect (next_obj s) host port,
                                Call_release (next_obj s)]\<rparr>)"
  using assms by (auto simp: fs_connect_def Let_def member_call_def log_call_def)

lemma fs_connect_accepted:
  assumes "fmlookup (streams s) fd = Some NULL"
    and "host = (case addrs s addr of Some name \<Rightarrow> name | None \<Rightarrow> inet_ntoa addr)"
    and "TCPSocket_connect x (next_obj s) host port"
  shows "fs_connect x fd addr port s =
     Inr (Val 0,
          s\<lparr>streams := fmupd fd (Obj (next_obj s)) (streams s), next_obj := Suc (next_obj s),
            calls := calls s @ [New_TCPSocket (next_obj s) fd, Call_connect (next_obj s) host port]\<rparr>)"
  using assms by (simp add: fs_connect_def Let_def AddFileStream_def log_call_def)

lemma fs_connect_accepted_unchecked:
  assumes "fmlookup (streams s) fd \<noteq> None"
    and "NDEBUG x \<or> fmlookup (streams s) fd = Some NULL"
    and "host = (case addrs s addr of Some name \<Rightarrow> name | None \<Rightarrow> inet_ntoa addr)"
    and "TCPSocket_connect x (next_obj s) host port"
  shows "fs_connect x fd addr port s =
     Inr (Val 0,
          s\<lparr>streams := fmupd fd (Obj (next_obj s)) (streams s), next_obj := Suc (next_obj s),
            calls := calls s @ [New_TCPSocket (next_obj s) fd, Call_connect (next_obj s) host port]\<rparr>)"
  using assms by (auto simp: fs_connect_def Let_def AddFileStream_def log_call_def)

lemma inet_ntoa_loopback: "inet_ntoa (htonl 0x7F000001) = ''127.0.0.1''"
  by (simp add: inet_ntoa_def htonl_def dec_byte_def digit_char_def)

text \<open>
  Claim C7, as the code has it. \<^verbatim>\<open>socket\<close> returns the lowest free descriptor and
  leaves its slot holding the null marker of a reservation (never \<^verbatim>\<open>kBadFileStream\<close>);
  \<^verbatim>\<open>read\<close> and \<^verbatim>\<open>write\<close> on it return \<^verbatim>\<open>EBADF\<close> and change nothing; a \<^verbatim>\<open>connect\<close> that
  the socket accepts returns 0 and binds the same slot to the new \<^verbatim>\<open>TCPSocket\<close>, to which
  a following \<^verbatim>\<open>read\<close> is passed.
\<close>

theorem socket_reserved_until_connect:
  "let fd = GetFirstUnusedDescriptor x s;
       s1 = s\<lparr>streams := fmupd fd NULL (streams s)\<rparr>;
       host = (case addrs s addr of Some name \<Rightarrow> name | None \<Rightarrow> inet_ntoa addr);
       s2 = s\<lparr>streams := fmupd fd (Obj (next_obj s)) (streams s), next_obj := Suc (next_obj s),
              calls := calls s @ [New_TCPSocket (next_obj s) fd, Call_connect (next_obj s) host port]\<rparr>
   in fs_socket x s = Inr (fd, s1)
    \<and> fmlookup (streams s) fd = None
    \<and> fmlookup (streams s1) fd = Some NULL
    \<and> fs_read x fd count s1 = Inr ((Err EBADF, []), s1)
    \<and> fs_write x fd buf s1 = Inr ((Err EBADF, []), s1)
    \<and> (TCPSocket_connect x (next_obj s) host port \<longrightarrow>
          fs_connect x fd addr port s1 = Inr (Val 0, s2)
        \<and> fmlookup (streams s2) fd = Some (Obj (next_obj s))
        \<and> fs_read x fd count s2 =
            Inr (FileStream_io x (next_obj s) (Op_read count),
                 s2\<lparr>calls := calls s2 @ [Call_io (next_obj s) (Op_read count)]\<rparr>))"
proof -
  define fd where "fd = GetFirstUnusedDescriptor x s"
  define s1 where "s1 = s\<lparr>streams := fmupd fd NULL (streams s)\<rparr>"
  define host where "host = (case addrs s addr of Some name \<Rightarrow> name | None \<Rightarrow> inet_ntoa addr)"
  define s2 where "s2 = s\<lparr>streams := fmupd fd (Obj (next_obj s)) (streams s), next_obj := Suc (next_obj s),
              calls := calls s @ [New_TCPSocket (next_obj s) fd, Call_connect (next_obj s) host port]\<rparr>"
  have free: "fmlookup (streams s) fd = None"
    unfolding fd_def by (rule first_unused_lookup)
  have sock: "fs_socket x s = Inr (fd, s1)"
    using free by (simp add: fs_socket_def fd_def [symmetric] s1_def AddFileStream_free)
  have slot: "fmlookup (streams s1) fd = Some NULL"
    by (simp add: s1_def)
  have g: "GetStream s1 fd = NULL"
    using slot by (rule GetStream_Some)
  have rd: "fs_read x fd count s1 = Inr ((Err EBADF, []), s1)"
    using g by (simp add: fs_read_def)
  have wr: "fs_write x fd buf s1 = Inr ((Err EBADF, []), s1)"
    using g by (simp add: fs_write_def)
  have conn: "fs_connect x fd addr port s1 = Inr (Val 0, s2)
        \<and> fmlookup (streams s2) fd = Some (Obj (next_obj s))
        \<and> fs_read x fd count s2 =
            Inr (FileStream_io x (next_obj s) (Op_read count),
                 s2\<lparr>calls := calls s2 @ [Call_io (next_obj s) (Op_read count)]\<rparr>)"
    if acc: "TCPSocket_connect x (next_obj s) host port"
  proof -
    have h1: "host = (case addrs s1 addr of Some name \<Rightarrow> name | None \<Rightarrow> inet_ntoa addr)"
      by (simp add: host_def s1_def)
    have acc1: "TCPSocket_connect x (next_obj s1) host port"
      using acc by (simp add: s1_def)
    have "fs_connect x fd addr port s1 = Inr (Val 0, s2)"
      using fs_connect_accepted [OF slot h1 acc1] by (simp add: s1_def s2_def)
    moreover have b: "fmlookup (streams s2) fd = Some (Obj (next_obj s))"
      by (simp add: s2_def)
    moreover have "fs_read x fd count s2 =
            Inr (FileStream_io x (next_obj s) (Op_read count),
                 s2\<lparr>calls := calls s2 @ [Call_io (next_obj s) (Op_read count)]\<rparr>)"
      using GetStream_Some [OF b] by (simp add: fs_read_def stream_io_def log_call_def)
    ultimately show ?thesis by simp
  qed
  show ?thesis
    unfolding Let_def fd_def [symmetric] s1_def [symmetric] host_def [symmetric] s2_def [symmetric]
    using sock free slot rd wr conn by blast
qed

theorem socket_reserved_until_connect_witness:
  "TCPSocket_connect ex_extern (next_obj ex_fs) ''localhost'' 22
   \<and> fs_socket ex_extern ex_fs = Inr (5, ex_fs\<lparr>streams := fmupd 5 NULL (streams ex_fs)\<rparr>)
   \<and> fs_read ex_extern 5 10 (ex_fs\<lparr>streams := fmupd 5 NULL (streams ex_fs)\<rparr>) =
       Inr ((Err EBADF, []), ex_fs\<lparr>streams := fmupd 5 NULL (streams ex_fs)\<rparr>)
   \<and> fst (projr (fs_connect ex_extern 5 (htonl 0x7F000001) 22
        (ex_fs\<lparr>streams := fmupd 5 NULL (streams ex_fs)\<rparr>))) = Val 0
   \<and> fmlookup (streams (snd (projr (fs_connect ex_extern 5 (htonl 0x7F000001) 22
        (ex_fs\<lparr>streams := fmupd 5 NULL (streams ex_fs)\<rparr>))))) 5 = Some (Obj 5)"
proof -
  have acc: "TCPSocket_connect ex_extern (next_obj ex_fs) ''localhost'' 22"
    by (simp add: ex_extern_def)
  have host: "(case addrs ex_fs (htonl 0x7F000001) of Some name \<Rightarrow> name | None \<Rightarrow> inet_ntoa (htonl 0x7F000001))
      = ''localhost''"
    by (simp add: ex_fs_def)
  have n: "next_obj ex_fs = 5"
    by (simp add: ex_fs_def)
  from socket_reserved_until_connect [where x = ex_extern and s = ex_fs and addr = "htonl 0x7F000001"
      and port = 22 and count = 10] acc
  show ?thesis
    unfolding Let_def ex_first_unused host by (simp add: n)
qed

text \<open>
  The slot that \<^verbatim>\<open>socket\<close> leaves behind on the concrete state is not bound to
  \<^verbatim>\<open>kBadFileStream\<close>.
\<close>

theorem socket_slot_not_bad_sentinel:
  "fs_socket ex_extern ex_fs = Inr (5, ex_fs\<lparr>streams := fmupd 5 NULL (streams ex_fs)\<rparr>)
   \<and> fmlookup (streams (snd (projr (fs_socket ex_extern ex_fs)))) 5 \<noteq> Some kBadFileStream"
proof -
  have "AddFileStream ex_extern 5 NULL ex_fs = Inr (ex_fs\<lparr>streams := fmupd 5 NULL (streams ex_fs)\<rparr>)"
    by (simp add: AddFileStream_def ex_fs_def)
  then have "fs_socket ex_extern ex_fs = Inr (5, ex_fs\<lparr>streams := fmupd 5 NULL (streams ex_fs)\<rparr>)"
    by (simp add: fs_socket_def ex_first_unused)
  then show ?thesis by simp
qed

text \<open>
  Claim C8. \<^verbatim>\<open>connect\<close> on a descriptor present in the table looks the address up in
  \<^verbatim>\<open>addrs_\<close> and, when it is not there, formats it with \<^verbatim>\<open>inet_ntoa\<close>; the result is the
  host the new \<^verbatim>\<open>TCPSocket\<close> is asked to connect to, whether it accepts or refuses. When
  the socket refuses, the call returns -1 with \<^verbatim>\<open>errno\<close> set to \<^verbatim>\<open>ECONNREFUSED\<close>, the
  socket is released, and the table is the table before the call. When it accepts (and
  the \<^verbatim>\<open>assert\<close> of \<^verbatim>\<open>AddFileStream\<close> is off or the slot is a reservation) the call
  returns 0 and the slot holds the socket.
\<close>

theorem connect_refused_leaves_table:
  "let host = (case addrs s addr of Some name \<Rightarrow> name | None \<Rightarrow> inet_ntoa addr) in
   (fmlookup (streams s) fd \<noteq> None \<and> \<not> TCPSocket_connect x (next_obj s) host port \<longrightarrow>
     fs_connect x fd addr port s =
       Inr (Val (- 1),
            s\<lparr>errno := ECONNREFUSED, next_obj := Suc (next_obj s),
              calls := calls s @ [New_TCPSocket (next_obj s) fd, Call_connect (next_obj s) host port,
                                  Call_release (next_obj s)]\<rparr>)
     \<and> streams (snd (projr (fs_connect x fd addr port s))) = streams s
     \<and> fmlookup (streams (snd (projr (fs_connect x fd addr port s)))) fd = fmlookup (streams s) fd)
   \<and> (fmlookup (streams s) fd \<noteq> None \<and> TCPSocket_connect x (next_obj s) host port
      \<and> (NDEBUG x \<or> fmlookup (streams s) fd = Some NULL) \<longrightarrow>
     fs_connect x fd addr port s =
       Inr (Val 0,
            s\<lparr>streams := fmupd fd (Obj (next_obj s)) (streams s), next_obj := Suc (next_obj s),
              calls := calls s @ [New_TCPSocket (next_obj s) fd, Call_connect (next_obj s) host port]\<rparr>))"
proof -
  define host where "host = (case addrs s addr of Some name \<Rightarrow> name | None \<Rightarrow> inet_ntoa addr)"
  have refused: "fs_connect x fd addr port s =
       Inr (Val (- 1),
            s\<lparr>errno := ECONNREFUSED, next_obj := Suc (next_obj s),
              calls := calls s @ [New_TCPSocket (next_obj s) fd, Call_connect (next_obj s) host port,
                                  Call_release (next_obj s)]\<rparr>)"
    if "fmlookup (streams s) fd \<noteq> None" and "\<not> TCPSocket_connect x (next_obj s) host port"
    using fs_connect_refused [OF that(1) host_def that(2)] .
  have accepted: "fs_connect x fd addr port s =
       Inr (Val 0,
            s\<lparr>streams := fmupd fd (Obj (next_obj s)) (streams s), next_obj := Suc (next_obj s),
              calls := calls s @ [New_TCPSocket (next_obj s) fd, Call_connect (next_obj s) host port]\<rparr>)"
    if "fmlookup (streams s) fd \<noteq> None" and "TCPSocket_connect x (next_obj s) host port"
      and "NDEBUG x \<or> fmlookup (streams s) fd = Some NULL"
    using fs_connect_accepted_unchecked [OF that(1) that(3) host_def that(2)] .
  from refused accepted show ?thesis
    unfolding Let_def host_def [symmetric] by simp
qed

theorem connect_refused_leaves_table_witness:
  "fmlookup (streams ex_fs) 3 \<noteq> None
   \<and> \<not> TCPSocket_connect (ex_extern\<lparr>TCPSocket_connect := \<lambda>a host port. False\<rparr>) (next_obj ex_fs) ''localhost'' 22
   \<and> fs_connect (ex_extern\<lparr>TCPSocket_connect := \<lambda>a host port. False\<rparr>) 3 (htonl 0x7F000001) 22 ex_fs =
       Inr (Val (- 1),
            ex_fs\<lparr>errno := ECONNREFUSED, next_obj := 6,
              calls := [New_TCPSocket 5 3, Call_connect 5 ''localhost'' 22, Call_release 5]\<rparr>)
   \<and> fs_connect (ex_extern\<lparr>TCPSocket_connect := \<lambda>a host port. False\<rparr>) 3 (htonl 0x0A000001) 22 ex_fs =
       Inr (Val (- 1),
            ex_fs\<lparr>errno := ECONNREFUSED, next_obj := 6,
              calls := [New_TCPSocket 5 3, Call_connect 5 ''10.0.0.1'' 22, Call_release 5]\<rparr>)
   \<and> TCPSocket_connect (ex_extern\<lparr>NDEBUG := True\<rparr>) (next_obj ex_fs) ''10.0.0.1'' 22
   \<and> NDEBUG (ex_extern\<lparr>NDEBUG := True\<rparr>)
   \<and> fs_connect (ex_extern\<lparr>NDEBUG := True\<rparr>) 3 (htonl 0x0A000001) 22 ex_fs =
       Inr (Val 0,
            ex_fs\<lparr>streams := fmupd 3 (Obj 5) (streams ex_fs), next_obj := 6,
              calls := [New_TCPSocket 5 3, Call_connect 5 ''10.0.0.1'' 22]\<rparr>)"
proof -
  have present: "fmlookup (streams ex_fs) 3 \<noteq> None"
    by (simp add: ex_fs_def)
  have acc: "TCPSocket_connect (ex_extern\<lparr>NDEBUG := True\<rparr>) (next_obj ex_fs) ''10.0.0.1'' 22"
    by (simp add: ex_extern_def)
  have host1: "(case addrs ex_fs (htonl 0x7F000001) of Some name \<Rightarrow> name | None \<Rightarrow> inet_ntoa (htonl 0x7F000001))
      = ''localhost''"
    by (simp add: ex_fs_def)
  have host2: "(case addrs ex_fs (htonl 0x0A000001) of Some name \<Rightarrow> name | None \<Rightarrow> inet_ntoa (htonl 0x0A000001))
      = ''10.0.0.1''"
    by (simp add: ex_fs_def inet_ntoa_def htonl_def dec_byte_def digit_char_def)
  have n: "next_obj ex_fs = 5" and c: "calls ex_fs = []"
    by (simp_all add: ex_fs_def)
  from connect_refused_leaves_table [where s = ex_fs and fd = 3 and addr = "htonl 0x7F000001" and port = 22
      and x = "ex_extern\<lparr>TCPSocket_connect := \<lambda>a host port. False\<rparr>"]
    connect_refused_leaves_table [where s = ex_fs and fd = 3 and addr = "htonl 0x0A000001" and port = 22
      and x = "ex_extern\<lparr>TCPSocket_connect := \<lambda>a host port. False\<rparr>"]
    connect_refused_leaves_table [where s = ex_fs and fd = 3 and addr = "htonl 0x0A000001" and port = 22
      and x = "ex_extern\<lparr>NDEBUG := True\<rparr>"]
    present acc
  show ?thesis
    unfolding Let_def host1 host2 by (simp add: n c)
qed


section \<open>dup2\<close>

text \<open>
  The branch of \<^verbatim>\<open>dup2\<close> that closes the stream found at \<open>newfd\<close> is entered when that
  stream is the null pointer, and only then. So a target that is absent or reserved
  makes the method call \<^verbatim>\<open>close\<close> through the null pointer, and a target bound to a
  stream is never closed.
\<close>

lemma fs_dup2_null_target:
  assumes "fmlookup (streams s) fd = Some (Obj a)"
    and "fmlookup (streams s) newfd = None \<or> fmlookup (streams s) newfd = Some NULL"
  shows "fs_dup2 x fd newfd s = Inl NullPointerCall"
proof -
  have "GetStream s fd = Obj a"
    using assms(1) by (rule GetStream_Some)
  moreover have "GetStream s newfd = NULL"
    using assms(2) by (auto simp: GetStream_def)
  ultimately show ?thesis
    by (simp add: fs_dup2_def member_call_def)
qed

lemma fs_dup2_live_target:
  assumes "fmlookup (streams s) fd = Some (Obj a)"
    and "fmlookup (streams s) newfd = Some (Obj b)"
  shows "fs_dup2 x fd newfd s =
     (if \<not> NDEBUG x then Inl AssertionFailed
      else if FileStream_dup x a newfd = NULL
      then Inr (Err EACCES, s\<lparr>streams := fmupd newfd NULL (streams s), calls := calls s @ [Call_dup a newfd]\<rparr>)
      else Inr (Val 0, s\<lparr>streams := fmupd newfd (FileStream_dup x a newfd) (streams s),
                        calls := calls s @ [Call_dup a newfd]\<rparr>))"
proof -
  have "GetStream s fd = Obj a"
    using assms(1) by (rule GetStream_Some)
  moreover have "GetStream s newfd = Obj b"
    using assms(2) by (rule GetStream_Some)
  ultimately show ?thesis
    using assms(2)
    by (simp add: fs_dup2_def AddFileStream_def stream_dup_def log_call_def)
qed

text \<open>
  Claim C2 on the code. In the concrete state the descriptors 3 and 4 are bound to the
  streams 3 and 4. \<^verbatim>\<open>dup2(3, 4)\<close> with assertions compiled in stops at the \<^verbatim>\<open>assert\<close>
  of \<^verbatim>\<open>AddFileStream\<close>; with \<^verbatim>\<open>NDEBUG\<close> it returns 0 and rebinds descriptor 4, and the
  only call made on any stream is \<^verbatim>\<open>dup\<close> on stream 3: stream 4 is neither closed nor
  released. \<^verbatim>\<open>dup2(3, 3)\<close> behaves in the same way.
\<close>

theorem dup2_occupied_target_not_closed:
  "fs_dup2 ex_extern 3 4 ex_fs = Inl AssertionFailed
   \<and> fs_dup2 (ex_extern\<lparr>NDEBUG := True\<rparr>) 3 4 ex_fs =
       Inr (Val 0, ex_fs\<lparr>streams := fmupd 4 (Obj 3) (streams ex_fs), calls := [Call_dup 3 4]\<rparr>)
   \<and> Call_close 4 \<notin> set (calls (snd (projr (fs_dup2 (ex_extern\<lparr>NDEBUG := True\<rparr>) 3 4 ex_fs))))
   \<and> Call_release 4 \<notin> set (calls (snd (projr (fs_dup2 (ex_extern\<lparr>NDEBUG := True\<rparr>) 3 4 ex_fs))))
   \<and> fs_dup2 ex_extern 3 3 ex_fs = Inl AssertionFailed
   \<and> fs_dup2 (ex_extern\<lparr>NDEBUG := True\<rparr>) 3 3 ex_fs =
       Inr (Val 0, ex_fs\<lparr>streams := fmupd 3 (Obj 3) (streams ex_fs), calls := [Call_dup 3 3]\<rparr>)"
proof -
  have l3: "fmlookup (streams ex_fs) 3 = Some (Obj 3)" and l4: "fmlookup (streams ex_fs) 4 = Some (Obj 4)"
    by (simp_all add: ex_fs_def)
  have c: "calls ex_fs = []"
    by (simp add: ex_fs_def)
  have d: "\<not> NDEBUG ex_extern" "FileStream_dup ex_extern 3 4 = Obj 3" "FileStream_dup ex_extern 3 3 = Obj 3"
    by (simp_all add: ex_extern_def)
  have a: "fs_dup2 ex_extern 3 4 ex_fs = Inl AssertionFailed"
    using fs_dup2_live_target [OF l3 l4, of ex_extern] d by simp
  have b: "fs_dup2 (ex_extern\<lparr>NDEBUG := True\<rparr>) 3 4 ex_fs =
       Inr (Val 0, ex_fs\<lparr>streams := fmupd 4 (Obj 3) (streams ex_fs), calls := [Call_dup 3 4]\<rparr>)"
    using fs_dup2_live_target [OF l3 l4, of "ex_extern\<lparr>NDEBUG := True\<rparr>"] d by (simp add: c)
  have a': "fs_dup2 ex_extern 3 3 ex_fs = Inl AssertionFailed"
    using fs_dup2_live_target [OF l3 l3, of ex_extern] d by simp
  have b': "fs_dup2 (ex_extern\<lparr>NDEBUG := True\<rparr>) 3 3 ex_fs =
       Inr (Val 0, ex_fs\<lparr>streams := fmupd 3 (Obj 3) (streams ex_fs), calls := [Call_dup 3 3]\<rparr>)"
    using fs_dup2_live_target [OF l3 l3, of "ex_extern\<lparr>NDEBUG := True\<rparr>"] d by (simp add: c)
  show ?thesis
    unfolding a b a' b' by simp
qed

text \<open>
  Claim C10 on the code. Descriptor 9 is absent from the concrete state and descriptor 3
  is bound to a stream. \<^verbatim>\<open>dup2(3, 9)\<close> finds the null pointer at the target and calls
  \<^verbatim>\<open>close\<close> through it, with assertions compiled in or not; the same happens when the
  target is a reserved slot.
\<close>

theorem dup2_absent_target_null_call:
  "fmlookup (streams ex_fs) 3 = Some (Obj 3)
   \<and> fmlookup (streams ex_fs) 9 = None
   \<and> fs_dup2 ex_extern 3 9 ex_fs = Inl NullPointerCall
   \<and> fs_dup2 (ex_extern\<lparr>NDEBUG := True\<rparr>) 3 9 ex_fs = Inl NullPointerCall
   \<and> fs_dup2 ex_extern 3 9 (ex_fs\<lparr>streams := fmupd 9 NULL (streams ex_fs)\<rparr>) = Inl NullPointerCall"
proof -
  have l3: "fmlookup (streams ex_fs) 3 = Some (Obj 3)" and l9: "fmlookup (streams ex_fs) 9 = None"
    by (simp_all add: ex_fs_def)
  have l3': "fmlookup (streams (ex_fs\<lparr>streams := fmupd 9 NULL (streams ex_fs)\<rparr>)) 3 = Some (Obj 3)"
    using l3 by simp
  have l9': "fmlookup (streams (ex_fs\<lparr>streams := fmupd 9 NULL (streams ex_fs)\<rparr>)) 9 = Some NULL"
    by simp
  from l3 l9 fs_dup2_null_target [OF l3 disjI1 [OF l9]] fs_dup2_null_target [OF l3' disjI2 [OF l9']]
  show ?thesis by simp
qed


section \<open>The loop of IsReady\<close>

text \<open>One turn of the loop, by the branch it takes.\<close>

lemma IsReady_from_done:
  "\<not> i < nfds \<Longrightarrow> IsReady_from s nfds rdy ap i fds nset = Inr (nset, fds)"
  by (subst IsReady_from.simps) simp

lemma IsReady_from_skip:
  "i < nfds \<Longrightarrow> i \<notin> fds \<Longrightarrow>
   IsReady_from s nfds rdy ap i fds nset = IsReady_from s nfds rdy ap (i + 1) fds nset"
  by (subst IsReady_from.simps) simp

lemma IsReady_from_null:
  "i < nfds \<Longrightarrow> i \<in> fds \<Longrightarrow> GetStream s i = NULL \<Longrightarrow>
   IsReady_from s nfds rdy ap i fds nset = Inr (- 1, fds)"
  by (subst IsReady_from.simps) simp

lemma IsReady_from_bad:
  "i < nfds \<Longrightarrow> i \<in> fds \<Longrightarrow> GetStream s i = kBadFileStream \<Longrightarrow>
   IsReady_from s nfds rdy ap i fds nset = Inl BadPointerCall"
  by (subst IsReady_from.simps) simp

lemma IsReady_from_ready_probe:
  "i < nfds \<Longrightarrow> i \<in> fds \<Longrightarrow> GetStream s i = Obj a \<Longrightarrow> rdy a \<Longrightarrow>
   IsReady_from s nfds rdy False i fds nset = Inr (1, fds)"
  by (subst IsReady_from.simps) simp

lemma IsReady_from_ready_apply:
  "i < nfds \<Longrightarrow> i \<in> fds \<Longrightarrow> GetStream s i = Obj a \<Longrightarrow> rdy a \<Longrightarrow>
   IsReady_from s nfds rdy True i fds nset = IsReady_from s nfds rdy True (i + 1) fds (nset + 1)"
  by (subst IsReady_from.simps) simp

lemma IsReady_from_notready_probe:
  "i < nfds \<Longrightarrow> i \<in> fds \<Longrightarrow> GetStream s i = Obj a \<Longrightarrow> \<not> rdy a \<Longrightarrow>
   IsReady_from s nfds rdy False i fds nset = IsReady_from s nfds rdy False (i + 1) fds nset"
  by (subst IsReady_from.simps) simp

lemma IsReady_from_notready_apply:
  "i < nfds \<Longrightarrow> i \<in> fds \<Longrightarrow> GetStream s i = Obj a \<Longrightarrow> \<not> rdy a \<Longrightarrow>
   IsReady_from s nfds rdy True i fds nset = IsReady_from s nfds rdy True (i + 1) (fds - {i}) nset"
  by (subst IsReady_from.simps) simp

lemma IsReady_branches:
  obtains (skip) "i \<notin> fds"
  | (null) "i \<in> fds" "GetStream s i = NULL"
  | (bad) "i \<in> fds" "GetStream s i = kBadFileStream"
  | (ready) a where "i \<in> fds" "GetStream s i = Obj a" "rdy a"
  | (notready) a where "i \<in> fds" "GetStream s i = Obj a" "\<not> rdy a"
  by (cases "GetStream s i") auto

lemma ready_at_Obj: "GetStream s j = Obj a \<Longrightarrow> ready_at s rdy j = rdy a"
  by (simp add: ready_at_def)

text \<open>The loop only clears bits.\<close>

lemma IsReady_from_subset:
  "IsReady_from s nfds rdy ap i fds nset = Inr (r, f') \<Longrightarrow> f' \<subseteq> fds"
proof (induction "nat (nfds - i)" arbitrary: i fds nset)
  case 0
  then have "\<not> i < nfds" by simp
  with "0.prems" show ?case by (simp add: IsReady_from_done)
next
  case (Suc n)
  then have lt: "i < nfds" and n: "n = nat (nfds - (i + 1))" by simp_all
  show ?case
  proof (cases rule: IsReady_branches [where i = i and fds = fds and s = s and rdy = rdy])
    case skip
    with Suc.prems lt Suc.hyps(1) [OF n] show ?thesis
      by (simp add: IsReady_from_skip)
  next
    case null
    with Suc.prems lt show ?thesis by (simp add: IsReady_from_null)
  next
    case bad
    with Suc.prems lt show ?thesis by (simp add: IsReady_from_bad)
  next
    case (ready a)
    show ?thesis
    proof (cases ap)
      case True
      with Suc.prems lt ready Suc.hyps(1) [OF n, of fds "nset + 1"] show ?thesis
        by (simp add: IsReady_from_ready_apply)
    next
      case False
      with Suc.prems lt ready show ?thesis by (simp add: IsReady_from_ready_probe)
    qed
  next
    case (notready a)
    show ?thesis
    proof (cases ap)
      case True
      with Suc.prems lt notready Suc.hyps(1) [OF n, of "fds - {i}" nset] show ?thesis
        by (auto simp: IsReady_from_notready_apply)
    next
      case False
      with Suc.prems lt notready Suc.hyps(1) [OF n, of fds nset] show ?thesis
        by (simp add: IsReady_from_notready_probe)
    qed
  qed
qed

text \<open>Without a member bound to \<^verbatim>\<open>kBadFileStream\<close> the loop returns.\<close>

lemma IsReady_from_total:
  "\<forall>j\<in>fds. i \<le> j \<and> j < nfds \<longrightarrow> GetStream s j \<noteq> kBadFileStream \<Longrightarrow>
   \<exists>r f'. IsReady_from s nfds rdy ap i fds nset = Inr (r, f')"
proof (induction "nat (nfds - i)" arbitrary: i fds nset)
  case 0
  then have "\<not> i < nfds" by simp
  then show ?case by (simp add: IsReady_from_done)
next
  case (Suc n)
  then have lt: "i < nfds" and n: "n = nat (nfds - (i + 1))" by simp_all
  have rest: "\<forall>j\<in>fds. i + 1 \<le> j \<and> j < nfds \<longrightarrow> GetStream s j \<noteq> kBadFileStream"
    and rest': "\<forall>j\<in>fds - {i}. i + 1 \<le> j \<and> j < nfds \<longrightarrow> GetStream s j \<noteq> kBadFileStream"
    using Suc.prems by auto
  show ?case
  proof (cases rule: IsReady_branches [where i = i and fds = fds and s = s and rdy = rdy])
    case skip
    with lt Suc.hyps(1) [OF n rest] show ?thesis
      by (simp add: IsReady_from_skip)
  next
    case null
    with lt show ?thesis by (simp add: IsReady_from_null)
  next
    case bad
    with Suc.prems lt show ?thesis by auto
  next
    case (ready a)
    show ?thesis
    proof (cases ap)
      case True
      with lt ready Suc.hyps(1) [OF n rest, of "nset + 1"] show ?thesis
        by (simp add: IsReady_from_ready_apply)
    next
      case False
      with lt ready show ?thesis by (simp add: IsReady_from_ready_probe)
    qed
  next
    case (notready a)
    show ?thesis
    proof (cases ap)
      case True
      with lt notready Suc.hyps(1) [OF n rest', of nset] show ?thesis
        by (simp add: IsReady_from_notready_apply)
    next
      case False
      with lt notready Suc.hyps(1) [OF n rest, of nset] show ?thesis
        by (simp add: IsReady_from_notready_probe)
    qed
  qed
qed

text \<open>The clearing pass returns -1 when a member below \<open>nfds\<close> has no stream.\<close>

lemma IsReady_from_apply_null_member:
  "IsReady_from s nfds rdy True i fds nset = Inr (r, f') \<Longrightarrow>
   \<exists>j\<in>fds. i \<le> j \<and> j < nfds \<and> GetStream s j = NULL \<Longrightarrow> r = - 1"
proof (induction "nat (nfds - i)" arbitrary: i fds nset)
  case 0
  then show ?case by auto
next
  case (Suc n)
  then have lt: "i < nfds" and n: "n = nat (nfds - (i + 1))" by simp_all
  from Suc.prems(2) obtain j where j: "j \<in> fds" "i \<le> j" "j < nfds" "GetStream s j = NULL"
    by blast
  show ?case
  proof (cases rule: IsReady_branches [where i = i and fds = fds and s = s and rdy = rdy])
    case skip
    with j have ne: "i \<noteq> j" by auto
    with j have "i + 1 \<le> j" by simp
    with j have "\<exists>j\<in>fds. i + 1 \<le> j \<and> j < nfds \<and> GetStream s j = NULL" by blast
    with Suc.prems(1) lt skip Suc.hyps(1) [OF n, of fds nset] show ?thesis
      by (simp add: IsReady_from_skip)
  next
    case null
    with Suc.prems(1) lt show ?thesis by (simp add: IsReady_from_null)
  next
    case bad
    with Suc.prems(1) lt show ?thesis by (simp add: IsReady_from_bad)
  next
    case (ready a)
    with j have ne: "i \<noteq> j" by auto
    with j have "i + 1 \<le> j" by simp
    with j have "\<exists>j\<in>fds. i + 1 \<le> j \<and> j < nfds \<and> GetStream s j = NULL" by blast
    with Suc.prems(1) lt ready Suc.hyps(1) [OF n, of fds "nset + 1"] show ?thesis
      by (simp add: IsReady_from_ready_apply)
  next
    case (notready a)
    with j have ne: "i \<noteq> j" by auto
    with j have "i + 1 \<le> j" and "j \<in> fds - {i}" by simp_all
    with j have "\<exists>j\<in>fds - {i}. i + 1 \<le> j \<and> j < nfds \<and> GetStream s j = NULL" by blast
    with Suc.prems(1) lt notready Suc.hyps(1) [OF n, of "fds - {i}" nset] show ?thesis
      by (simp add: IsReady_from_notready_apply)
  qed
qed

text \<open>
  When every member below \<open>nfds\<close> has a stream, the clearing pass counts the ready
  members and leaves the set without the members that are not ready.
\<close>

lemma IsReady_from_apply_count:
  "IsReady_from s nfds rdy True i fds nset = Inr (r, f') \<Longrightarrow>
   \<forall>j\<in>fds. i \<le> j \<and> j < nfds \<longrightarrow> GetStream s j \<noteq> NULL \<Longrightarrow>
   r = nset + int (card {j \<in> fds. i \<le> j \<and> j < nfds \<and> ready_at s rdy j})
   \<and> f' = {j \<in> fds. i \<le> j \<and> j < nfds \<longrightarrow> ready_at s rdy j}"
proof (induction "nat (nfds - i)" arbitrary: i fds nset)
  case 0
  then have ge: "\<not> i < nfds" by simp
  then have e1: "{j \<in> fds. i \<le> j \<and> j < nfds \<and> ready_at s rdy j} = {}"
    and e2: "{j \<in> fds. i \<le> j \<and> j < nfds \<longrightarrow> ready_at s rdy j} = fds"
    by auto
  from "0.prems"(1) ge have "r = nset" and "f' = fds"
    by (simp_all add: IsReady_from_done)
  then show ?case
    unfolding e1 e2 by simp
next
  case (Suc n)
  then have lt: "i < nfds" and n: "n = nat (nfds - (i + 1))" by simp_all
  have fin: "finite {j \<in> fds. i + 1 \<le> j \<and> j < nfds \<and> ready_at s rdy j}"
    by (rule finite_subset [of _ "{i + 1..<nfds}"]) auto
  show ?case
  proof (cases rule: IsReady_branches [where i = i and fds = fds and s = s and rdy = rdy])
    case skip
    have rest: "\<forall>j\<in>fds. i + 1 \<le> j \<and> j < nfds \<longrightarrow> GetStream s j \<noteq> NULL"
      using Suc.prems(2) by auto
    from skip have e1: "{j \<in> fds. i \<le> j \<and> j < nfds \<and> ready_at s rdy j}
        = {j \<in> fds. i + 1 \<le> j \<and> j < nfds \<and> ready_at s rdy j}"
      by (auto simp: order_le_less)
    from skip have e2: "{j \<in> fds. i \<le> j \<and> j < nfds \<longrightarrow> ready_at s rdy j}
        = {j \<in> fds. i + 1 \<le> j \<and> j < nfds \<longrightarrow> ready_at s rdy j}"
      by (auto simp: order_le_less)
    from Suc.prems(1) lt skip have "IsReady_from s nfds rdy True (i + 1) fds nset = Inr (r, f')"
      by (simp add: IsReady_from_skip)
    from Suc.hyps(1) [OF n this rest] show ?thesis
      unfolding e1 e2 .
  next
    case null
    with Suc.prems(2) lt show ?thesis by auto
  next
    case bad
    with Suc.prems(1) lt show ?thesis by (simp add: IsReady_from_bad)
  next
    case (ready a)
    have rest: "\<forall>j\<in>fds. i + 1 \<le> j \<and> j < nfds \<longrightarrow> GetStream s j \<noteq> NULL"
      using Suc.prems(2) by auto
    have ri: "ready_at s rdy i"
      using ready by (simp add: ready_at_Obj)
    with ready lt have e1: "{j \<in> fds. i \<le> j \<and> j < nfds \<and> ready_at s rdy j}
        = insert i {j \<in> fds. i + 1 \<le> j \<and> j < nfds \<and> ready_at s rdy j}"
      by (auto simp: order_le_less)
    from ri have e2: "{j \<in> fds. i \<le> j \<and> j < nfds \<longrightarrow> ready_at s rdy j}
        = {j \<in> fds. i + 1 \<le> j \<and> j < nfds \<longrightarrow> ready_at s rdy j}"
      by (auto simp: order_le_less)
    have c: "card (insert i {j \<in> fds. i + 1 \<le> j \<and> j < nfds \<and> ready_at s rdy j})
        = Suc (card {j \<in> fds. i + 1 \<le> j \<and> j < nfds \<and> ready_at s rdy j})"
      using fin by (subst card_insert_disjoint) auto
    from Suc.prems(1) lt ready
    have "IsReady_from s nfds rdy True (i + 1) fds (nset + 1) = Inr (r, f')"
      by (simp add: IsReady_from_ready_apply)
    from Suc.hyps(1) [OF n this rest] show ?thesis
      unfolding e1 e2 c by simp
  next
    case (notready a)
    have rest: "\<forall>j\<in>fds - {i}. i + 1 \<le> j \<and> j < nfds \<longrightarrow> GetStream s j \<noteq> NULL"
      using Suc.prems(2) by auto
    have ri: "\<not> ready_at s rdy i"
      using notready by (simp add: ready_at_Obj)
    then have e1: "{j \<in> fds. i \<le> j \<and> j < nfds \<and> ready_at s rdy j}
        = {j \<in> fds - {i}. i + 1 \<le> j \<and> j < nfds \<and> ready_at s rdy j}"
      by (auto simp: order_le_less)
    from ri lt have e2: "{j \<in> fds. i \<le> j \<and> j < nfds \<longrightarrow> ready_at s rdy j}
        = {j \<in> fds - {i}. i + 1 \<le> j \<and> j < nfds \<longrightarrow> ready_at s rdy j}"
      by (auto simp: order_le_less)
    from Suc.prems(1) lt notready
    have "IsReady_from s nfds rdy True (i + 1) (fds - {i}) nset = Inr (r, f')"
      by (simp add: IsReady_from_notready_apply)
    from Suc.hyps(1) [OF n this rest] show ?thesis
      unfolding e1 e2 .
  qed
qed

text \<open>
  The pass that only looks returns the set as it was, and returns 0 exactly when every
  member below \<open>nfds\<close> has a stream and none is ready.
\<close>

lemma IsReady_from_probe:
  "IsReady_from s nfds rdy False i fds 0 = Inr (r, f') \<Longrightarrow>
   f' = fds \<and> (r = 0 \<longleftrightarrow> (\<forall>j\<in>fds. i \<le> j \<and> j < nfds \<longrightarrow> GetStream s j \<noteq> NULL \<and> \<not> ready_at s rdy j))"
proof (induction "nat (nfds - i)" arbitrary: i)
  case 0
  then have ge: "\<not> i < nfds" by simp
  with "0.prems" show ?case by (auto simp: IsReady_from_done)
next
  case (Suc n)
  then have lt: "i < nfds" and n: "n = nat (nfds - (i + 1))" by simp_all
  have split: "(\<forall>j\<in>fds. i \<le> j \<and> j < nfds \<longrightarrow> P j)
      \<longleftrightarrow> (i \<in> fds \<longrightarrow> P i) \<and> (\<forall>j\<in>fds. i + 1 \<le> j \<and> j < nfds \<longrightarrow> P j)" for P
    using lt by (auto simp: order_le_less)
  show ?case
  proof (cases rule: IsReady_branches [where i = i and fds = fds and s = s and rdy = rdy])
    case skip
    with Suc.prems lt have "IsReady_from s nfds rdy False (i + 1) fds 0 = Inr (r, f')"
      by (simp add: IsReady_from_skip)
    from Suc.hyps(1) [OF n this] skip show ?thesis
      unfolding split by simp
  next
    case null
    with Suc.prems lt show ?thesis
      unfolding split by (auto simp: IsReady_from_null)
  next
    case bad
    with Suc.prems lt show ?thesis by (simp add: IsReady_from_bad)
  next
    case (ready a)
    with Suc.prems lt show ?thesis
      unfolding split by (auto simp: IsReady_from_ready_probe ready_at_Obj)
  next
    case (notready a)
    with Suc.prems lt have "IsReady_from s nfds rdy False (i + 1) fds 0 = Inr (r, f')"
      by (simp add: IsReady_from_notready_probe)
    from Suc.hyps(1) [OF n this] notready show ?thesis
      unfolding split by (simp add: ready_at_Obj)
  qed
qed


section \<open>IsReady, the loop condition and the clearing pass\<close>

lemma IsReady_total:
  "\<forall>j. in_fdset j fds \<and> 0 \<le> j \<and> j < nfds \<longrightarrow> GetStream s j \<noteq> kBadFileStream \<Longrightarrow>
   \<exists>r f'. IsReady s nfds fds rdy ap = Inr (r, f')"
proof (cases fds)
  case None
  then show ?thesis by (simp add: IsReady_def)
next
  case (Some f)
  assume "\<forall>j. in_fdset j fds \<and> 0 \<le> j \<and> j < nfds \<longrightarrow> GetStream s j \<noteq> kBadFileStream"
  with Some have "\<forall>j\<in>f. 0 \<le> j \<and> j < nfds \<longrightarrow> GetStream s j \<noteq> kBadFileStream"
    by (simp add: in_fdset_def)
  from IsReady_from_total [OF this, of rdy ap 0] Some show ?thesis
    by (auto simp: IsReady_def)
qed

lemma IsReady_probe:
  assumes "IsReady s nfds fds rdy False = Inr (r, f')"
  shows "f' = fds"
    and "r = 0 \<longleftrightarrow> (\<forall>j. in_fdset j fds \<and> 0 \<le> j \<and> j < nfds \<longrightarrow> GetStream s j \<noteq> NULL \<and> \<not> ready_at s rdy j)"
proof -
  show "f' = fds"
  proof (cases fds)
    case None
    with assms show ?thesis by (simp add: IsReady_def)
  next
    case (Some f)
    with assms obtain g where g: "IsReady_from s nfds rdy False 0 f 0 = Inr (r, g)" and "f' = Some g"
      by (auto simp: IsReady_def bind_fault_def split: sum.splits)
    with IsReady_from_probe [OF g] Some show ?thesis by simp
  qed
  show "r = 0 \<longleftrightarrow> (\<forall>j. in_fdset j fds \<and> 0 \<le> j \<and> j < nfds \<longrightarrow> GetStream s j \<noteq> NULL \<and> \<not> ready_at s rdy j)"
  proof (cases fds)
    case None
    with assms show ?thesis by (simp add: IsReady_def in_fdset_def)
  next
    case (Some f)
    with assms obtain g where g: "IsReady_from s nfds rdy False 0 f 0 = Inr (r, g)"
      by (auto simp: IsReady_def bind_fault_def split: sum.splits)
    from IsReady_from_probe [OF g] Some show ?thesis
      by (auto simp: in_fdset_def)
  qed
qed

lemma IsReady_apply_null_member:
  assumes "IsReady s nfds fds rdy True = Inr (r, f')"
    and "in_fdset j fds" "0 \<le> j" "j < nfds" "GetStream s j = NULL"
  shows "r = - 1"
proof -
  from assms(2) obtain f where f: "fds = Some f" "j \<in> f"
    by (cases fds) (auto simp: in_fdset_def)
  with assms(1) obtain g where g: "IsReady_from s nfds rdy True 0 f 0 = Inr (r, g)"
    by (auto simp: IsReady_def bind_fault_def split: sum.splits)
  from f assms(3-5) have "\<exists>j\<in>f. 0 \<le> j \<and> j < nfds \<and> GetStream s j = NULL"
    by blast
  from IsReady_from_apply_null_member [OF g this] show ?thesis .
qed

lemma IsReady_apply_count:
  assumes "IsReady s nfds fds rdy True = Inr (r, f')"
    and "\<forall>j. in_fdset j fds \<and> 0 \<le> j \<and> j < nfds \<longrightarrow> GetStream s j \<noteq> NULL"
  shows "r = int (card (ready_members s nfds rdy fds)) \<and> f' = cleared s nfds rdy fds"
proof (cases fds)
  case None
  with assms(1) show ?thesis
    by (simp add: IsReady_def ready_members_def cleared_def in_fdset_def)
next
  case (Some f)
  with assms(1) obtain g where g: "IsReady_from s nfds rdy True 0 f 0 = Inr (r, g)" and f': "f' = Some g"
    by (auto simp: IsReady_def bind_fault_def split: sum.splits)
  from assms(2) Some have "\<forall>j\<in>f. 0 \<le> j \<and> j < nfds \<longrightarrow> GetStream s j \<noteq> NULL"
    by (simp add: in_fdset_def)
  from IsReady_from_apply_count [OF g this] Some f' show ?thesis
    by (simp add: ready_members_def cleared_def in_fdset_def)
qed

lemma IsReady_apply_nonneg:
  assumes "IsReady s nfds fds rdy True = Inr (r, f')" and "0 \<le> r"
  shows "r = int (card (ready_members s nfds rdy fds)) \<and> f' = cleared s nfds rdy fds"
proof -
  have "\<forall>j. in_fdset j fds \<and> 0 \<le> j \<and> j < nfds \<longrightarrow> GetStream s j \<noteq> NULL"
    using IsReady_apply_null_member [OF assms(1)] assms(2) by fastforce
  with assms(1) show ?thesis by (rule IsReady_apply_count)
qed

lemma IsReady_subset:
  assumes "IsReady s nfds fds rdy ap = Inr (r, f')" and "in_fdset j f'"
  shows "in_fdset j fds"
proof (cases fds)
  case None
  with assms show ?thesis by (simp add: IsReady_def)
next
  case (Some f)
  with assms(1) obtain g where g: "IsReady_from s nfds rdy ap 0 f 0 = Inr (r, g)" and f': "f' = Some g"
    by (auto simp: IsReady_def bind_fault_def split: sum.splits)
  from IsReady_from_subset [OF g] assms(2) f' Some show ?thesis
    by (auto simp: in_fdset_def)
qed

text \<open>
  The loop condition, when no descriptor looked at is bound to \<^verbatim>\<open>kBadFileStream\<close>: it
  is false exactly when every such descriptor has a stream and none is ready for the
  query of its set.
\<close>

lemma select_ready_iff:
  assumes "\<forall>j. queried nfds readfds writefds exceptfds j \<longrightarrow> GetStream s j \<noteq> kBadFileStream"
  shows "select_ready x s nfds readfds writefds exceptfds =
     Inr (\<not> ((\<forall>j. in_fdset j readfds \<and> 0 \<le> j \<and> j < nfds \<longrightarrow>
                 GetStream s j \<noteq> NULL \<and> \<not> ready_at s (is_read_ready x) j)
           \<and> (\<forall>j. in_fdset j writefds \<and> 0 \<le> j \<and> j < nfds \<longrightarrow>
                 GetStream s j \<noteq> NULL \<and> \<not> ready_at s (is_write_ready x) j)
           \<and> (\<forall>j. in_fdset j exceptfds \<and> 0 \<le> j \<and> j < nfds \<longrightarrow>
                 GetStream s j \<noteq> NULL \<and> \<not> ready_at s (is_exception x) j)))"
proof -
  from assms have nb:
    "\<forall>j. in_fdset j readfds \<and> 0 \<le> j \<and> j < nfds \<longrightarrow> GetStream s j \<noteq> kBadFileStream"
    "\<forall>j. in_fdset j writefds \<and> 0 \<le> j \<and> j < nfds \<longrightarrow> GetStream s j \<noteq> kBadFileStream"
    "\<forall>j. in_fdset j exceptfds \<and> 0 \<le> j \<and> j < nfds \<longrightarrow> GetStream s j \<noteq> kBadFileStream"
    by (auto simp: queried_def)
  from IsReady_total [OF nb(1)] obtain r fr
    where r: "IsReady s nfds readfds (is_read_ready x) False = Inr (r, fr)" by blast
  from IsReady_total [OF nb(2)] obtain w fw
    where w: "IsReady s nfds writefds (is_write_ready x) False = Inr (w, fw)" by blast
  from IsReady_total [OF nb(3)] obtain e fe
    where e: "IsReady s nfds exceptfds (is_exception x) False = Inr (e, fe)" by blast
  have "select_ready x s nfds readfds writefds exceptfds = Inr (\<not> (r = 0 \<and> w = 0 \<and> e = 0))"
    by (simp add: select_ready_def r w e)
  then show ?thesis
    unfolding IsReady_probe(2) [OF r] IsReady_probe(2) [OF w] IsReady_probe(2) [OF e] .
qed

text \<open>A successful clearing pass: the sets are cleared and the ready members counted.\<close>

lemma select_apply_success:
  assumes "select_apply x s nfds readfds writefds exceptfds = Inr ((Val n, r', w', e'), s')"
    and "0 \<le> n"
  shows "s' = s
    \<and> r' = cleared s nfds (is_read_ready x) readfds
    \<and> w' = cleared s nfds (is_write_ready x) writefds
    \<and> e' = cleared s nfds (is_exception x) exceptfds
    \<and> n = int (card (ready_members s nfds (is_read_ready x) readfds))
        + int (card (ready_members s nfds (is_write_ready x) writefds))
        + int (card (ready_members s nfds (is_exception x) exceptfds))"
proof -
  from assms(1) obtain nr fr where r: "IsReady s nfds readfds (is_read_ready x) True = Inr (nr, fr)"
    by (cases "IsReady s nfds readfds (is_read_ready x) True") (auto simp: select_apply_def)
  from assms(1) r obtain nw fw where w: "IsReady s nfds writefds (is_write_ready x) True = Inr (nw, fw)"
    by (cases "IsReady s nfds writefds (is_write_ready x) True") (auto simp: select_apply_def)
  from assms(1) r w obtain ne fe where e: "IsReady s nfds exceptfds (is_exception x) True = Inr (ne, fe)"
    by (cases "IsReady s nfds exceptfds (is_exception x) True") (auto simp: select_apply_def)
  from assms r w e have ok: "0 \<le> nr" "0 \<le> nw" "0 \<le> ne"
    and res: "n = nr + nw + ne" "r' = fr" "w' = fw" "e' = fe" "s' = s"
    by (auto simp: select_apply_def split: if_splits)
  from IsReady_apply_nonneg [OF r ok(1)] IsReady_apply_nonneg [OF w ok(2)]
    IsReady_apply_nonneg [OF e ok(3)] res
  show ?thesis by simp
qed

text \<open>A clearing pass that meets a descriptor without a stream.\<close>

lemma select_apply_null_member:
  assumes nb: "\<forall>j. queried nfds readfds writefds exceptfds j \<longrightarrow> GetStream s j \<noteq> kBadFileStream"
    and q: "queried nfds readfds writefds exceptfds fd" and null: "GetStream s fd = NULL"
  shows "\<exists>r' w' e'. select_apply x s nfds readfds writefds exceptfds =
            Inr ((Val (- 1), r', w', e'), s\<lparr>errno := EBADF\<rparr>)
          \<and> (\<forall>j. in_fdset j r' \<longrightarrow> in_fdset j readfds)
          \<and> (\<forall>j. in_fdset j w' \<longrightarrow> in_fdset j writefds)
          \<and> (\<forall>j. in_fdset j e' \<longrightarrow> in_fdset j exceptfds)"
proof -
  from nb have nb:
    "\<forall>j. in_fdset j readfds \<and> 0 \<le> j \<and> j < nfds \<longrightarrow> GetStream s j \<noteq> kBadFileStream"
    "\<forall>j. in_fdset j writefds \<and> 0 \<le> j \<and> j < nfds \<longrightarrow> GetStream s j \<noteq> kBadFileStream"
    "\<forall>j. in_fdset j exceptfds \<and> 0 \<le> j \<and> j < nfds \<longrightarrow> GetStream s j \<noteq> kBadFileStream"
    by (auto simp: queried_def)
  from IsReady_total [OF nb(1)] obtain nr fr
    where r: "IsReady s nfds readfds (is_read_ready x) True = Inr (nr, fr)" by blast
  from IsReady_total [OF nb(2)] obtain nw fw
    where w: "IsReady s nfds writefds (is_write_ready x) True = Inr (nw, fw)" by blast
  from IsReady_total [OF nb(3)] obtain ne fe
    where e: "IsReady s nfds exceptfds (is_exception x) True = Inr (ne, fe)" by blast
  from q have range: "0 \<le> fd" "fd < nfds"
    and mem: "in_fdset fd readfds \<or> in_fdset fd writefds \<or> in_fdset fd exceptfds"
    by (simp_all add: queried_def)
  from mem have "nr = - 1 \<or> nw = - 1 \<or> ne = - 1"
    using IsReady_apply_null_member [OF r _ range null] IsReady_apply_null_member [OF w _ range null]
      IsReady_apply_null_member [OF e _ range null]
    by blast
  then have "nr < 0 \<or> nw < 0 \<or> ne < 0" by auto
  then have "select_apply x s nfds readfds writefds exceptfds =
      Inr ((Val (- 1), fr, fw, fe), s\<lparr>errno := EBADF\<rparr>)"
    by (simp add: select_apply_def r w e)
  with IsReady_subset [OF r] IsReady_subset [OF w] IsReady_subset [OF e] show ?thesis
    by blast
qed


section \<open>select\<close>

lemma nothing_ready_select_ready:
  assumes "nothing_ready x s nfds readfds writefds exceptfds"
  shows "select_ready x s nfds readfds writefds exceptfds = Inr False"
proof -
  from assms have bound: "\<forall>j. queried nfds readfds writefds exceptfds j \<longrightarrow> (\<exists>a. GetStream s j = Obj a)"
    and none: "ready_members s nfds (is_read_ready x) readfds = {}"
      "ready_members s nfds (is_write_ready x) writefds = {}"
      "ready_members s nfds (is_exception x) exceptfds = {}"
    by (simp_all add: nothing_ready_def)
  from bound have nb: "\<forall>j. queried nfds readfds writefds exceptfds j \<longrightarrow> GetStream s j \<noteq> kBadFileStream"
    by fastforce
  have "(\<forall>j. in_fdset j readfds \<and> 0 \<le> j \<and> j < nfds \<longrightarrow>
            GetStream s j \<noteq> NULL \<and> \<not> ready_at s (is_read_ready x) j)"
    using bound none(1) by (fastforce simp: queried_def ready_members_def)
  moreover have "(\<forall>j. in_fdset j writefds \<and> 0 \<le> j \<and> j < nfds \<longrightarrow>
            GetStream s j \<noteq> NULL \<and> \<not> ready_at s (is_write_ready x) j)"
    using bound none(2) by (fastforce simp: queried_def ready_members_def)
  moreover have "(\<forall>j. in_fdset j exceptfds \<and> 0 \<le> j \<and> j < nfds \<longrightarrow>
            GetStream s j \<noteq> NULL \<and> \<not> ready_at s (is_exception x) j)"
    using bound none(3) by (fastforce simp: queried_def ready_members_def)
  ultimately show ?thesis
    unfolding select_ready_iff [OF nb] by simp
qed

lemma nothing_ready_select_apply:
  assumes "nothing_ready x s nfds readfds writefds exceptfds"
  shows "select_apply x s nfds readfds writefds exceptfds =
     Inr ((Val 0, cleared s nfds (is_read_ready x) readfds, cleared s nfds (is_write_ready x) writefds,
           cleared s nfds (is_exception x) exceptfds), s)"
proof -
  from assms have bound: "\<forall>j. queried nfds readfds writefds exceptfds j \<longrightarrow> (\<exists>a. GetStream s j = Obj a)"
    and none: "ready_members s nfds (is_read_ready x) readfds = {}"
      "ready_members s nfds (is_write_ready x) writefds = {}"
      "ready_members s nfds (is_exception x) exceptfds = {}"
    by (simp_all add: nothing_ready_def)
  from bound have nb:
    "\<forall>j. in_fdset j readfds \<and> 0 \<le> j \<and> j < nfds \<longrightarrow> GetStream s j \<noteq> kBadFileStream"
    "\<forall>j. in_fdset j writefds \<and> 0 \<le> j \<and> j < nfds \<longrightarrow> GetStream s j \<noteq> kBadFileStream"
    "\<forall>j. in_fdset j exceptfds \<and> 0 \<le> j \<and> j < nfds \<longrightarrow> GetStream s j \<noteq> kBadFileStream"
    by (fastforce simp: queried_def)+
  from bound have nn:
    "\<forall>j. in_fdset j readfds \<and> 0 \<le> j \<and> j < nfds \<longrightarrow> GetStream s j \<noteq> NULL"
    "\<forall>j. in_fdset j writefds \<and> 0 \<le> j \<and> j < nfds \<longrightarrow> GetStream s j \<noteq> NULL"
    "\<forall>j. in_fdset j exceptfds \<and> 0 \<le> j \<and> j < nfds \<longrightarrow> GetStream s j \<noteq> NULL"
    by (fastforce simp: queried_def)+
  from IsReady_total [OF nb(1)] obtain nr fr
    where r: "IsReady s nfds readfds (is_read_ready x) True = Inr (nr, fr)" by blast
  from IsReady_total [OF nb(2)] obtain nw fw
    where w: "IsReady s nfds writefds (is_write_ready x) True = Inr (nw, fw)" by blast
  from IsReady_total [OF nb(3)] obtain ne fe
    where e: "IsReady s nfds exceptfds (is_exception x) True = Inr (ne, fe)" by blast
  from IsReady_apply_count [OF r nn(1)] IsReady_apply_count [OF w nn(2)] IsReady_apply_count [OF e nn(3)] none
  show ?thesis
    by (simp add: select_apply_def r w e)
qed

text \<open>
  Claim C3, as the code has it. When a descriptor below \<open>nfds\<close> in one of the three sets
  is absent from the table, and no descriptor looked at is bound to \<^verbatim>\<open>kBadFileStream\<close>,
  \<^verbatim>\<open>select\<close> returns -1 with \<^verbatim>\<open>errno\<close> set to \<^verbatim>\<open>EBADF\<close>, whatever the streams answer and
  without waiting: the state returned is the state of the call, whatever the wake-ups
  on offer. No count is returned. The three sets come back as the clearing pass left
  them: each is a subset of the set passed in.
\<close>

theorem select_absent_descriptor_fails:
  "fmlookup (streams s) fd = None
   \<and> queried nfds readfds writefds exceptfds fd
   \<and> (\<forall>j. queried nfds readfds writefds exceptfds j \<longrightarrow> GetStream s j \<noteq> kBadFileStream)
   \<longrightarrow> (\<exists>r' w' e'.
          fs_select x nfds readfds writefds exceptfds timeout s sched =
            Inr ((Val (- 1), r', w', e'), s\<lparr>errno := EBADF\<rparr>)
        \<and> (\<forall>j. in_fdset j r' \<longrightarrow> in_fdset j readfds)
        \<and> (\<forall>j. in_fdset j w' \<longrightarrow> in_fdset j writefds)
        \<and> (\<forall>j. in_fdset j e' \<longrightarrow> in_fdset j exceptfds))"
proof (intro impI, elim conjE)
  assume absent: "fmlookup (streams s) fd = None"
    and q: "queried nfds readfds writefds exceptfds fd"
    and nb: "\<forall>j. queried nfds readfds writefds exceptfds j \<longrightarrow> GetStream s j \<noteq> kBadFileStream"
  from absent have null: "GetStream s fd = NULL"
    by (rule GetStream_None)
  from q null have "\<not> ((\<forall>j. in_fdset j readfds \<and> 0 \<le> j \<and> j < nfds \<longrightarrow>
                 GetStream s j \<noteq> NULL \<and> \<not> ready_at s (is_read_ready x) j)
           \<and> (\<forall>j. in_fdset j writefds \<and> 0 \<le> j \<and> j < nfds \<longrightarrow>
                 GetStream s j \<noteq> NULL \<and> \<not> ready_at s (is_write_ready x) j)
           \<and> (\<forall>j. in_fdset j exceptfds \<and> 0 \<le> j \<and> j < nfds \<longrightarrow>
                 GetStream s j \<noteq> NULL \<and> \<not> ready_at s (is_exception x) j))"
    by (auto simp: queried_def)
  then have "select_ready x s nfds readfds writefds exceptfds = Inr True"
    unfolding select_ready_iff [OF nb] by simp
  then have "fs_select x nfds readfds writefds exceptfds timeout s sched =
      select_apply x s nfds readfds writefds exceptfds"
    by (subst fs_select.simps) simp
  with select_apply_null_member [OF nb q null, of x]
  show "\<exists>r' w' e'.
          fs_select x nfds readfds writefds exceptfds timeout s sched =
            Inr ((Val (- 1), r', w', e'), s\<lparr>errno := EBADF\<rparr>)
        \<and> (\<forall>j. in_fdset j r' \<longrightarrow> in_fdset j readfds)
        \<and> (\<forall>j. in_fdset j w' \<longrightarrow> in_fdset j writefds)
        \<and> (\<forall>j. in_fdset j e' \<longrightarrow> in_fdset j exceptfds)"
    by simp
qed

lemma cleared_below_nfds:
  "{j. in_fdset j (cleared s nfds rdy fds) \<and> 0 \<le> j \<and> j < nfds} = ready_members s nfds rdy fds"
  by (cases fds) (auto simp: cleared_def in_fdset_def ready_members_def)

lemma select_apply_bound:
  assumes bound: "\<forall>j. queried nfds readfds writefds exceptfds j \<longrightarrow> (\<exists>a. GetStream s j = Obj a)"
  shows "select_apply x s nfds readfds writefds exceptfds =
     Inr ((Val (ready_count x s nfds readfds writefds exceptfds),
           cleared s nfds (is_read_ready x) readfds, cleared s nfds (is_write_ready x) writefds,
           cleared s nfds (is_exception x) exceptfds), s)"
proof -
  from bound have nb:
    "\<forall>j. in_fdset j readfds \<and> 0 \<le> j \<and> j < nfds \<longrightarrow> GetStream s j \<noteq> kBadFileStream"
    "\<forall>j. in_fdset j writefds \<and> 0 \<le> j \<and> j < nfds \<longrightarrow> GetStream s j \<noteq> kBadFileStream"
    "\<forall>j. in_fdset j exceptfds \<and> 0 \<le> j \<and> j < nfds \<longrightarrow> GetStream s j \<noteq> kBadFileStream"
    by (fastforce simp: queried_def)+
  from bound have nn:
    "\<forall>j. in_fdset j readfds \<and> 0 \<le> j \<and> j < nfds \<longrightarrow> GetStream s j \<noteq> NULL"
    "\<forall>j. in_fdset j writefds \<and> 0 \<le> j \<and> j < nfds \<longrightarrow> GetStream s j \<noteq> NULL"
    "\<forall>j. in_fdset j exceptfds \<and> 0 \<le> j \<and> j < nfds \<longrightarrow> GetStream s j \<noteq> NULL"
    by (fastforce simp: queried_def)+
  from IsReady_total [OF nb(1)] obtain nr fr
    where r: "IsReady s nfds readfds (is_read_ready x) True = Inr (nr, fr)" by blast
  from IsReady_total [OF nb(2)] obtain nw fw
    where w: "IsReady s nfds writefds (is_write_ready x) True = Inr (nw, fw)" by blast
  from IsReady_total [OF nb(3)] obtain ne fe
    where e: "IsReady s nfds exceptfds (is_exception x) True = Inr (ne, fe)" by blast
  from IsReady_apply_count [OF r nn(1)] IsReady_apply_count [OF w nn(2)] IsReady_apply_count [OF e nn(3)]
  show ?thesis
    by (simp add: select_apply_def r w e ready_count_def)
qed

lemma select_ready_bound:
  assumes bound: "\<forall>j. queried nfds readfds writefds exceptfds j \<longrightarrow> (\<exists>a. GetStream s j = Obj a)"
  shows "select_ready x s nfds readfds writefds exceptfds =
     Inr (\<not> nothing_ready x s nfds readfds writefds exceptfds)"
proof -
  from bound have nb: "\<forall>j. queried nfds readfds writefds exceptfds j \<longrightarrow> GetStream s j \<noteq> kBadFileStream"
    by fastforce
  have q: "(\<forall>j. in_fdset j fds \<and> 0 \<le> j \<and> j < nfds \<longrightarrow> GetStream s j \<noteq> NULL \<and> \<not> ready_at s rdy j)
      \<longleftrightarrow> ready_members s nfds rdy fds = {}"
    if "\<forall>j. in_fdset j fds \<and> 0 \<le> j \<and> j < nfds \<longrightarrow> (\<exists>a. GetStream s j = Obj a)" for fds rdy
    using that by (fastforce simp: ready_members_def)
  have b: "\<forall>j. in_fdset j readfds \<and> 0 \<le> j \<and> j < nfds \<longrightarrow> (\<exists>a. GetStream s j = Obj a)"
    "\<forall>j. in_fdset j writefds \<and> 0 \<le> j \<and> j < nfds \<longrightarrow> (\<exists>a. GetStream s j = Obj a)"
    "\<forall>j. in_fdset j exceptfds \<and> 0 \<le> j \<and> j < nfds \<longrightarrow> (\<exists>a. GetStream s j = Obj a)"
    using bound by (simp_all add: queried_def)
  show ?thesis
    unfolding select_ready_iff [OF nb] q [OF b(1)] q [OF b(2)] q [OF b(3)]
    using bound by (simp add: nothing_ready_def)
qed

lemma nothing_ready_bound:
  "nothing_ready x s nfds readfds writefds exceptfds \<Longrightarrow>
   \<forall>j. queried nfds readfds writefds exceptfds j \<longrightarrow> (\<exists>a. GetStream s j = Obj a)"
  by (simp add: nothing_ready_def)

lemma nothing_ready_count:
  "nothing_ready x s nfds readfds writefds exceptfds \<Longrightarrow>
   ready_count x s nfds readfds writefds exceptfds = 0"
  by (simp add: nothing_ready_def ready_count_def)

lemma ready_count_errno:
  "ready_count x (s\<lparr>errno := e\<rparr>) nfds readfds writefds exceptfds
   = ready_count x s nfds readfds writefds exceptfds"
  by (simp add: ready_count_def ready_members_def ready_at_def GetStream_def)

lemma cleared_errno: "cleared (s\<lparr>errno := e\<rparr>) nfds rdy fds = cleared s nfds rdy fds"
  by (simp add: cleared_def ready_at_def GetStream_def)

lemma GetStream_errno: "GetStream (s\<lparr>errno := e\<rparr>) j = GetStream s j"
  by (simp add: GetStream_def)

text \<open>One turn of the loop of \<^verbatim>\<open>select\<close>, by the branch it takes.\<close>

lemma fs_select_ready_now:
  "select_ready x s nfds readfds writefds exceptfds = Inr True \<Longrightarrow>
   fs_select x nfds readfds writefds exceptfds timeout s sched =
     select_apply x s nfds readfds writefds exceptfds"
  by (subst fs_select.simps) simp

lemma fs_select_never_woken:
  "select_ready x s nfds readfds writefds exceptfds = Inr False \<Longrightarrow>
   fs_select x nfds readfds writefds exceptfds timeout s [] = Inl Blocked"
  by (subst fs_select.simps) simp

lemma fs_select_wake:
  "select_ready x s nfds readfds writefds exceptfds = Inr False \<Longrightarrow>
   timeout \<noteq> None \<longrightarrow> res = Woken \<Longrightarrow>
   fs_select x nfds readfds writefds exceptfds timeout s ((res, x', s') # rest) =
     fs_select x' nfds readfds writefds exceptfds timeout s' rest"
  by (subst fs_select.simps) auto

lemma fs_select_expiry:
  "select_ready x s nfds readfds writefds exceptfds = Inr False \<Longrightarrow> timeout \<noteq> None \<Longrightarrow>
   fs_select x nfds readfds writefds exceptfds timeout s ((Wait_failed ETIMEDOUT, x', s') # rest) =
     select_apply x' (s'\<lparr>errno := ETIMEDOUT\<rparr>) nfds readfds writefds exceptfds"
  by (subst fs_select.simps) auto

lemma fs_select_wait_error:
  "select_ready x s nfds readfds writefds exceptfds = Inr False \<Longrightarrow> timeout \<noteq> None \<Longrightarrow>
   e \<noteq> ETIMEDOUT \<Longrightarrow>
   fs_select x nfds readfds writefds exceptfds timeout s ((Wait_failed e, x', s') # rest) =
     Inr ((Val (- 1), readfds, writefds, exceptfds), s'\<lparr>errno := e\<rparr>)"
  by (subst fs_select.simps) auto

text \<open>Wake-ups that find nothing ready are passed over.\<close>

lemma fs_select_skip_quiet:
  assumes "nothing_ready x s nfds readfds writefds exceptfds"
    and "quiet_wakeups (timeout \<noteq> None) nfds readfds writefds exceptfds quiet"
  shows "\<exists>xq sq. nothing_ready xq sq nfds readfds writefds exceptfds
           \<and> (\<forall>more. fs_select x nfds readfds writefds exceptfds timeout s (quiet @ more) =
                      fs_select xq nfds readfds writefds exceptfds timeout sq more)"
  using assms
proof (induction quiet arbitrary: x s)
  case Nil
  then show ?case by auto
next
  case (Cons w quiet)
  obtain res x' s' where w: "w = (res, x', s')"
    by (cases w)
  from Cons.prems(2) w have here: "nothing_ready x' s' nfds readfds writefds exceptfds"
    and woken: "timeout \<noteq> None \<longrightarrow> res = Woken"
    and rest: "quiet_wakeups (timeout \<noteq> None) nfds readfds writefds exceptfds quiet"
    by (simp_all add: quiet_wakeups_def)
  from Cons.IH [OF here rest] obtain xq sq
    where q: "nothing_ready xq sq nfds readfds writefds exceptfds"
      and eq: "\<And>more. fs_select x' nfds readfds writefds exceptfds timeout s' (quiet @ more) =
                      fs_select xq nfds readfds writefds exceptfds timeout sq more"
    by blast
  have "select_ready x s nfds readfds writefds exceptfds = Inr False"
    using Cons.prems(1) by (rule nothing_ready_select_ready)
  from fs_select_wake [OF this woken]
  have "fs_select x nfds readfds writefds exceptfds timeout s ((w # quiet) @ more) =
      fs_select xq nfds readfds writefds exceptfds timeout sq more" for more
    unfolding w by (simp add: eq)
  with q show ?case by blast
qed

text \<open>
  Claim C4. Every return of \<^verbatim>\<open>select\<close> with a number that is not negative was computed
  in one state of the table with the behaviour of the streams that goes with it (those
  of the call, or those one wake-up returned to; after an expiry \<^verbatim>\<open>errno\<close> holds
  \<^verbatim>\<open>ETIMEDOUT\<close>): each set comes back without its members below \<open>nfds\<close> that are not
  ready there, so that the members below \<open>nfds\<close> of a returned set are exactly the ready
  members of the set passed in, and the number is the number of ready members of the
  three sets together. The call does return: when every descriptor looked at has a
  stream and one is ready at the call, it returns this result at once; when nothing is
  ready at the call nor after any number of wake-ups, it returns this result for the
  first wake-up that finds a descriptor ready, and when a timed wait then ends with
  \<^verbatim>\<open>ETIMEDOUT\<close> it returns the result for the state found, which is 0 and the cleared
  sets when nothing is ready there. A timed wait that fails otherwise gives -1 and the
  sets as passed in; with no further wake-up the call is never woken.
\<close>

theorem select_returns_ready_members:
  "(fs_select x nfds readfds writefds exceptfds timeout s sched = Inr ((Val n, r', w', e'), s') \<and> 0 \<le> n
     \<longrightarrow> (\<exists>(x', t)\<in>set ((x, s) # map (\<lambda>(res, x', t). (x', t)) sched).
            (s' = t \<or> s' = t\<lparr>errno := ETIMEDOUT\<rparr>)
          \<and> r' = cleared s' nfds (is_read_ready x') readfds
          \<and> w' = cleared s' nfds (is_write_ready x') writefds
          \<and> e' = cleared s' nfds (is_exception x') exceptfds
          \<and> {j. in_fdset j r' \<and> 0 \<le> j \<and> j < nfds} = ready_members s' nfds (is_read_ready x') readfds
          \<and> {j. in_fdset j w' \<and> 0 \<le> j \<and> j < nfds} = ready_members s' nfds (is_write_ready x') writefds
          \<and> {j. in_fdset j e' \<and> 0 \<le> j \<and> j < nfds} = ready_members s' nfds (is_exception x') exceptfds
          \<and> n = int (card (ready_members s' nfds (is_read_ready x') readfds))
              + int (card (ready_members s' nfds (is_write_ready x') writefds))
              + int (card (ready_members s' nfds (is_exception x') exceptfds))))
   \<and> ((\<forall>j. queried nfds readfds writefds exceptfds j \<longrightarrow> (\<exists>a. GetStream s j = Obj a))
      \<and> \<not> nothing_ready x s nfds readfds writefds exceptfds
     \<longrightarrow> fs_select x nfds readfds writefds exceptfds timeout s sched =
           Inr ((Val (ready_count x s nfds readfds writefds exceptfds),
                 cleared s nfds (is_read_ready x) readfds,
                 cleared s nfds (is_write_ready x) writefds,
                 cleared s nfds (is_exception x) exceptfds), s))
   \<and> (nothing_ready x s nfds readfds writefds exceptfds
      \<and> quiet_wakeups (timeout \<noteq> None) nfds readfds writefds exceptfds quiet
     \<longrightarrow> fs_select x nfds readfds writefds exceptfds timeout s quiet = Inl Blocked
       \<and> ((timeout \<noteq> None \<longrightarrow> res = Woken)
          \<and> (\<forall>j. queried nfds readfds writefds exceptfds j \<longrightarrow> (\<exists>a. GetStream sr j = Obj a))
          \<and> \<not> nothing_ready xr sr nfds readfds writefds exceptfds
         \<longrightarrow> fs_select x nfds readfds writefds exceptfds timeout s (quiet @ (res, xr, sr) # rest) =
               Inr ((Val (ready_count xr sr nfds readfds writefds exceptfds),
                     cleared sr nfds (is_read_ready xr) readfds,
                     cleared sr nfds (is_write_ready xr) writefds,
                     cleared sr nfds (is_exception xr) exceptfds), sr))
       \<and> (timeout \<noteq> None
          \<and> (\<forall>j. queried nfds readfds writefds exceptfds j \<longrightarrow> (\<exists>a. GetStream st j = Obj a))
         \<longrightarrow> fs_select x nfds readfds writefds exceptfds timeout s
               (quiet @ (Wait_failed ETIMEDOUT, xt, st) # rest) =
               Inr ((Val (ready_count xt st nfds readfds writefds exceptfds),
                     cleared st nfds (is_read_ready xt) readfds,
                     cleared st nfds (is_write_ready xt) writefds,
                     cleared st nfds (is_exception xt) exceptfds), st\<lparr>errno := ETIMEDOUT\<rparr>))
       \<and> (timeout \<noteq> None \<and> nothing_ready xt st nfds readfds writefds exceptfds
         \<longrightarrow> fs_select x nfds readfds writefds exceptfds timeout s
               (quiet @ (Wait_failed ETIMEDOUT, xt, st) # rest) =
               Inr ((Val 0, cleared st nfds (is_read_ready xt) readfds,
                     cleared st nfds (is_write_ready xt) writefds,
                     cleared st nfds (is_exception xt) exceptfds), st\<lparr>errno := ETIMEDOUT\<rparr>))
       \<and> (timeout \<noteq> None \<and> err \<noteq> ETIMEDOUT
         \<longrightarrow> fs_select x nfds readfds writefds exceptfds timeout s
               (quiet @ (Wait_failed err, xt, st) # rest) =
               Inr ((Val (- 1), readfds, writefds, exceptfds), st\<lparr>errno := err\<rparr>)))"
proof -
  let ?P = "\<lambda>x' s'. r' = cleared s' nfds (is_read_ready x') readfds
          \<and> w' = cleared s' nfds (is_write_ready x') writefds
          \<and> e' = cleared s' nfds (is_exception x') exceptfds
          \<and> {j. in_fdset j r' \<and> 0 \<le> j \<and> j < nfds} = ready_members s' nfds (is_read_ready x') readfds
          \<and> {j. in_fdset j w' \<and> 0 \<le> j \<and> j < nfds} = ready_members s' nfds (is_write_ready x') writefds
          \<and> {j. in_fdset j e' \<and> 0 \<le> j \<and> j < nfds} = ready_members s' nfds (is_exception x') exceptfds
          \<and> n = int (card (ready_members s' nfds (is_read_ready x') readfds))
              + int (card (ready_members s' nfds (is_write_ready x') writefds))
              + int (card (ready_members s' nfds (is_exception x') exceptfds))"
  let ?Q = "\<lambda>(x', t). (s' = t \<or> s' = t\<lparr>errno := ETIMEDOUT\<rparr>) \<and> ?P x' s'"
  have returned: "\<exists>p\<in>set ((x, s) # map (\<lambda>(res, x', t). (x', t)) sched). ?Q p"
    if res: "fs_select x nfds readfds writefds exceptfds timeout s sched = Inr ((Val n, r', w', e'), s')"
      and n: "0 \<le> n"
  proof -
    have apply_case: "s' = t \<and> ?P y s'"
      if "select_apply y t nfds readfds writefds exceptfds = Inr ((Val n, r', w', e'), s')" for y t
      using select_apply_success [OF that n] by (simp add: cleared_below_nfds)
    from res show ?thesis
    proof (induction sched arbitrary: x s)
      case Nil
      then have a: "select_apply x s nfds readfds writefds exceptfds = Inr ((Val n, r', w', e'), s')"
        by (subst (asm) fs_select.simps) (auto split: sum.splits bool.splits)
      have "?Q (x, s)"
        unfolding prod.case using apply_case [OF a] by blast
      moreover have "(x, s) \<in> set ((x, s) # map (\<lambda>(res, x', t). (x', t)) [])" by simp
      ultimately show ?case by (rule bexI)
    next
      case (Cons ev sched)
      obtain res xw sw where ev: "ev = (res, xw, sw)"
        by (cases ev)
      from Cons.prems ev consider
          (now) "select_apply x s nfds readfds writefds exceptfds = Inr ((Val n, r', w', e'), s')"
        | (again) "fs_select xw nfds readfds writefds exceptfds timeout sw sched = Inr ((Val n, r', w', e'), s')"
        | (expired) "select_apply xw (sw\<lparr>errno := ETIMEDOUT\<rparr>) nfds readfds writefds exceptfds
              = Inr ((Val n, r', w', e'), s')"
        | (failed) "Val n = Val (- 1)"
        by (subst (asm) fs_select.simps)
          (auto split: sum.splits bool.splits if_splits wait_result.splits)
      then show ?case
      proof cases
        case now
        have "?Q (x, s)"
          unfolding prod.case using apply_case [OF now] by blast
        moreover have "(x, s) \<in> set ((x, s) # map (\<lambda>(res, x', t). (x', t)) (ev # sched))" by simp
        ultimately show ?thesis by (rule bexI)
      next
        case again
        from Cons.IH [OF this] obtain p
          where mem: "p \<in> set ((xw, sw) # map (\<lambda>(res, x', t). (x', t)) sched)" and Q: "?Q p"
          by blast
        from mem ev have "p \<in> set ((x, s) # map (\<lambda>(res, x', t). (x', t)) (ev # sched))" by auto
        with Q show ?thesis by (rule bexI)
      next
        case expired
        have "?Q (xw, sw)"
          unfolding prod.case using apply_case [OF expired] by blast
        moreover from ev have "(xw, sw) \<in> set ((x, s) # map (\<lambda>(res, x', t). (x', t)) (ev # sched))"
          by simp
        ultimately show ?thesis by (rule bexI)
      next
        case failed
        with n show ?thesis by simp
      qed
    qed
  qed
  have now: "fs_select x nfds readfds writefds exceptfds timeout s sched =
           Inr ((Val (ready_count x s nfds readfds writefds exceptfds),
                 cleared s nfds (is_read_ready x) readfds,
                 cleared s nfds (is_write_ready x) writefds,
                 cleared s nfds (is_exception x) exceptfds), s)"
    if bound: "\<forall>j. queried nfds readfds writefds exceptfds j \<longrightarrow> (\<exists>a. GetStream s j = Obj a)"
      and ready: "\<not> nothing_ready x s nfds readfds writefds exceptfds"
  proof -
    from ready have "select_ready x s nfds readfds writefds exceptfds = Inr True"
      by (simp add: select_ready_bound [OF bound])
    then show ?thesis
      by (simp add: fs_select_ready_now select_apply_bound [OF bound])
  qed
  have later: "fs_select x nfds readfds writefds exceptfds timeout s quiet = Inl Blocked
       \<and> ((timeout \<noteq> None \<longrightarrow> res = Woken)
          \<and> (\<forall>j. queried nfds readfds writefds exceptfds j \<longrightarrow> (\<exists>a. GetStream sr j = Obj a))
          \<and> \<not> nothing_ready xr sr nfds readfds writefds exceptfds
         \<longrightarrow> fs_select x nfds readfds writefds exceptfds timeout s (quiet @ (res, xr, sr) # rest) =
               Inr ((Val (ready_count xr sr nfds readfds writefds exceptfds),
                     cleared sr nfds (is_read_ready xr) readfds,
                     cleared sr nfds (is_write_ready xr) writefds,
                     cleared sr nfds (is_exception xr) exceptfds), sr))
       \<and> (timeout \<noteq> None
          \<and> (\<forall>j. queried nfds readfds writefds exceptfds j \<longrightarrow> (\<exists>a. GetStream st j = Obj a))
         \<longrightarrow> fs_select x nfds readfds writefds exceptfds timeout s
               (quiet @ (Wait_failed ETIMEDOUT, xt, st) # rest) =
               Inr ((Val (ready_count xt st nfds readfds writefds exceptfds),
                     cleared st nfds (is_read_ready xt) readfds,
                     cleared st nfds (is_write_ready xt) writefds,
                     cleared st nfds (is_exception xt) exceptfds), st\<lparr>errno := ETIMEDOUT\<rparr>))
       \<and> (timeout \<noteq> None \<and> nothing_ready xt st nfds readfds writefds exceptfds
         \<longrightarrow> fs_select x nfds readfds writefds exceptfds timeout s
               (quiet @ (Wait_failed ETIMEDOUT, xt, st) # rest) =
               Inr ((Val 0, cleared st nfds (is_read_ready xt) readfds,
                     cleared st nfds (is_write_ready xt) writefds,
                     cleared st nfds (is_exception xt) exceptfds), st\<lparr>errno := ETIMEDOUT\<rparr>))
       \<and> (timeout \<noteq> None \<and> err \<noteq> ETIMEDOUT
         \<longrightarrow> fs_select x nfds readfds writefds exceptfds timeout s
               (quiet @ (Wait_failed err, xt, st) # rest) =
               Inr ((Val (- 1), readfds, writefds, exceptfds), st\<lparr>errno := err\<rparr>))"
    if idle: "nothing_ready x s nfds readfds writefds exceptfds"
      and quiet: "quiet_wakeups (timeout \<noteq> None) nfds readfds writefds exceptfds quiet"
  proof -
    from fs_select_skip_quiet [OF idle quiet] obtain xq sq
      where q: "nothing_ready xq sq nfds readfds writefds exceptfds"
        and skip: "\<And>more. fs_select x nfds readfds writefds exceptfds timeout s (quiet @ more) =
                      fs_select xq nfds readfds writefds exceptfds timeout sq more"
      by blast
    have waiting: "select_ready xq sq nfds readfds writefds exceptfds = Inr False"
      using q by (rule nothing_ready_select_ready)
    have blocked: "fs_select x nfds readfds writefds exceptfds timeout s quiet = Inl Blocked"
      using skip [of "[]"] fs_select_never_woken [OF waiting] by simp
    have woken: "fs_select x nfds readfds writefds exceptfds timeout s (quiet @ (res, xr, sr) # rest) =
               Inr ((Val (ready_count xr sr nfds readfds writefds exceptfds),
                     cleared sr nfds (is_read_ready xr) readfds,
                     cleared sr nfds (is_write_ready xr) writefds,
                     cleared sr nfds (is_exception xr) exceptfds), sr)"
      if w: "timeout \<noteq> None \<longrightarrow> res = Woken"
        and bound: "\<forall>j. queried nfds readfds writefds exceptfds j \<longrightarrow> (\<exists>a. GetStream sr j = Obj a)"
        and ready: "\<not> nothing_ready xr sr nfds readfds writefds exceptfds"
    proof -
      from ready have "select_ready xr sr nfds readfds writefds exceptfds = Inr True"
        by (simp add: select_ready_bound [OF bound])
      then have "fs_select xr nfds readfds writefds exceptfds timeout sr rest =
          select_apply xr sr nfds readfds writefds exceptfds"
        by (rule fs_select_ready_now)
      then show ?thesis
        unfolding skip fs_select_wake [OF waiting w] select_apply_bound [OF bound] .
    qed
    have expired: "fs_select x nfds readfds writefds exceptfds timeout s
               (quiet @ (Wait_failed ETIMEDOUT, xt, st) # rest) =
               Inr ((Val (ready_count xt st nfds readfds writefds exceptfds),
                     cleared st nfds (is_read_ready xt) readfds,
                     cleared st nfds (is_write_ready xt) writefds,
                     cleared st nfds (is_exception xt) exceptfds), st\<lparr>errno := ETIMEDOUT\<rparr>)"
      if t: "timeout \<noteq> None"
        and bound: "\<forall>j. queried nfds readfds writefds exceptfds j \<longrightarrow> (\<exists>a. GetStream st j = Obj a)"
    proof -
      from bound have bound': "\<forall>j. queried nfds readfds writefds exceptfds j \<longrightarrow>
          (\<exists>a. GetStream (st\<lparr>errno := ETIMEDOUT\<rparr>) j = Obj a)"
        by (simp add: GetStream_errno)
      show ?thesis
        unfolding skip fs_select_expiry [OF waiting t] select_apply_bound [OF bound']
        by (simp add: ready_count_errno cleared_errno)
    qed
    have expired_idle: "fs_select x nfds readfds writefds exceptfds timeout s
               (quiet @ (Wait_failed ETIMEDOUT, xt, st) # rest) =
               Inr ((Val 0, cleared st nfds (is_read_ready xt) readfds,
                     cleared st nfds (is_write_ready xt) writefds,
                     cleared st nfds (is_exception xt) exceptfds), st\<lparr>errno := ETIMEDOUT\<rparr>)"
      if t: "timeout \<noteq> None" and i: "nothing_ready xt st nfds readfds writefds exceptfds"
      using expired [OF t nothing_ready_bound [OF i]] nothing_ready_count [OF i] by simp
    have wait_error: "fs_select x nfds readfds writefds exceptfds timeout s
               (quiet @ (Wait_failed err, xt, st) # rest) =
               Inr ((Val (- 1), readfds, writefds, exceptfds), st\<lparr>errno := err\<rparr>)"
      if t: "timeout \<noteq> None" and e: "err \<noteq> ETIMEDOUT"
      unfolding skip by (rule fs_select_wait_error [OF waiting t e])
    from blocked woken expired expired_idle wait_error show ?thesis
      by blast
  qed
  from returned now later show ?thesis
    by blast
qed

section \<open>select on the concrete state\<close>

lemmas ex_select_simps =
  fs_select.simps select_ready_def select_apply_def IsReady_def IsReady_from.simps
  GetStream_def ex_fs_def ex_extern_def

lemma ex_queried_callable:
  "\<forall>j. queried 10 (Some {4, 9}) (Some {4}) None j \<longrightarrow> GetStream ex_fs j \<noteq> kBadFileStream"
  by (auto simp: queried_def in_fdset_def GetStream_def ex_fs_def)

theorem select_absent_descriptor_fails_witness:
  "fmlookup (streams ex_fs) 9 = None
   \<and> queried 10 (Some {4, 9}) (Some {4}) None 9
   \<and> \<not> (\<exists>j. queried 10 (Some {4, 9}) (Some {4}) None j \<and> GetStream ex_fs j = kBadFileStream)
   \<and> (\<exists>r' w' e'. fs_select ex_extern 10 (Some {4, 9}) (Some {4}) None None ex_fs [] =
         Inr ((Val (- 1), r', w', e'), ex_fs\<lparr>errno := EBADF\<rparr>))"
proof -
  have a: "fmlookup (streams ex_fs) 9 = None"
    by (simp add: ex_fs_def)
  have q: "queried 10 (Some {4, 9}) (Some {4}) None 9"
    by (simp add: queried_def in_fdset_def)
  from select_absent_descriptor_fails [where s = ex_fs and fd = 9 and nfds = 10
      and readfds = "Some {4, 9}" and writefds = "Some {4}" and exceptfds = None
      and x = ex_extern and timeout = None and sched = "[]"]
    a q ex_queried_callable
  show ?thesis by blast
qed

text \<open>
  On the concrete state descriptor 9 is absent and descriptor 4 is bound to a stream
  that is ready for writing and not for reading. \<^verbatim>\<open>select\<close> on the read set \<open>{4, 9}\<close>
  and the write set \<open>{4}\<close> fails with \<^verbatim>\<open>EBADF\<close>, and the read set comes back as \<open>{9}\<close>:
  the caller's set has lost the descriptor found not ready.
\<close>

theorem select_failure_clears_members:
  "fmlookup (streams ex_fs) 9 = None
   \<and> fs_select ex_extern 10 (Some {4, 9}) (Some {4}) None None ex_fs [] =
       Inr ((Val (- 1), Some {9}, Some {4}, None), ex_fs\<lparr>errno := EBADF\<rparr>)
   \<and> Some {9} \<noteq> Some {4, 9 :: int}"
proof -
  have a: "fmlookup (streams ex_fs) 9 = None"
    by (simp add: ex_fs_def)
  have b: "fs_select ex_extern 10 (Some {4, 9}) (Some {4}) None None ex_fs [] =
       Inr ((Val (- 1), Some {9}, Some {4}, None), ex_fs\<lparr>errno := EBADF\<rparr>)"
    by (simp add: ex_select_simps)
  have c: "Some {9} \<noteq> Some {4, 9 :: int}"
    by auto
  from a b c show ?thesis by simp
qed

lemma ex_select_two_ready:
  "fs_select ex_extern 5 (Some {3, 4}) (Some {4}) None None ex_fs [] =
     Inr ((Val 2, Some {3}, Some {4}, None), ex_fs)"
  by (simp add: ex_select_simps insert_Diff_if)

lemma ex_nothing_ready: "nothing_ready ex_extern ex_fs 5 (Some {4}) None None"
  by (auto simp: nothing_ready_def queried_def in_fdset_def ready_members_def ready_at_def
      GetStream_def ex_fs_def ex_extern_def)

lemma bex_only_world: "\<exists>(a, b)\<in>set ((x, s) # map f []). P a b \<Longrightarrow> P x s"
  by simp

lemma ex_select_two_ready_bound:
  "\<forall>j. queried 5 (Some {3, 4}) (Some {4}) None j \<longrightarrow> (\<exists>a. GetStream ex_fs j = Obj a)"
  by (auto simp: queried_def in_fdset_def GetStream_def ex_fs_def)

lemma ex_select_two_ready_not_idle:
  "\<not> nothing_ready ex_extern ex_fs 5 (Some {3, 4}) (Some {4}) None"
proof -
  have "4 \<in> ready_members ex_fs 5 (is_write_ready ex_extern) (Some {4})"
    by (simp add: ready_members_def in_fdset_def ready_at_def GetStream_def ex_fs_def ex_extern_def)
  then show ?thesis
    by (auto simp: nothing_ready_def)
qed

lemma ex_select_one_bound:
  "\<forall>j. queried 5 (Some {4}) None None j \<longrightarrow> (\<exists>a. GetStream ex_fs j = Obj a)"
  by (auto simp: queried_def in_fdset_def GetStream_def ex_fs_def)

lemma ex_select_later_not_idle:
  "\<not> nothing_ready (ex_extern\<lparr>is_read_ready := \<lambda>a. a = 4\<rparr>) ex_fs 5 (Some {4}) None None"
proof -
  have "4 \<in> ready_members ex_fs 5 (is_read_ready (ex_extern\<lparr>is_read_ready := \<lambda>a. a = 4\<rparr>)) (Some {4})"
    by (simp add: ready_members_def in_fdset_def ready_at_def GetStream_def ex_fs_def)
  then show ?thesis
    by (auto simp: nothing_ready_def)
qed

lemma ex_quiet_wakeups:
  "quiet_wakeups (Some (0 :: int, 50000 :: int) \<noteq> None) 5 (Some {4}) None None
     [(Woken, ex_extern, ex_fs)]"
  by (simp add: quiet_wakeups_def ex_nothing_ready)

lemma ex_select_woken_ready:
  "fs_select ex_extern 5 (Some {4}) None None (Some (0, 50000)) ex_fs
     [(Woken, ex_extern, ex_fs), (Woken, ex_extern\<lparr>is_read_ready := \<lambda>a. a = 4\<rparr>, ex_fs)] =
   Inr ((Val 1, Some {4}, None, None), ex_fs)"
  by (simp add: ex_select_simps)

text \<open>
  On the concrete state: the read set \<open>{3, 4}\<close> and the write set \<open>{4}\<close> give 2 and the
  sets \<open>{3}\<close> and \<open>{4}\<close> at once. The read set \<open>{4}\<close> with a timeout waits; after one
  wake-up that finds nothing ready, an expiry gives 0 and the empty set, a wake-up that
  finds descriptor 4 ready gives 1 and the set \<open>{4}\<close>, a failed wait gives -1, and no
  further wake-up leaves the call waiting.
\<close>

theorem select_returns_ready_members_witness:
  "fs_select ex_extern 5 (Some {3, 4}) (Some {4}) None None ex_fs [] =
     Inr ((Val 2, Some {3}, Some {4}, None), ex_fs)
   \<and> \<not> nothing_ready ex_extern ex_fs 5 (Some {3, 4}) (Some {4}) None
   \<and> ready_count ex_extern ex_fs 5 (Some {3, 4}) (Some {4}) None = 2
   \<and> cleared ex_fs 5 (is_read_ready ex_extern) (Some {3, 4}) = Some {3}
   \<and> cleared ex_fs 5 (is_write_ready ex_extern) (Some {4}) = Some {4}
   \<and> {j. in_fdset j (Some {3}) \<and> 0 \<le> j \<and> j < 5}
       = ready_members ex_fs 5 (is_read_ready ex_extern) (Some {3, 4})
   \<and> nothing_ready ex_extern ex_fs 5 (Some {4}) None None
   \<and> quiet_wakeups True 5 (Some {4}) None None [(Woken, ex_extern, ex_fs)]
   \<and> fs_select ex_extern 5 (Some {4}) None None (Some (0, 50000)) ex_fs
       [(Woken, ex_extern, ex_fs)] = Inl Blocked
   \<and> fs_select ex_extern 5 (Some {4}) None None (Some (0, 50000)) ex_fs
       [(Woken, ex_extern, ex_fs), (Wait_failed ETIMEDOUT, ex_extern, ex_fs)] =
       Inr ((Val 0, Some {}, None, None), ex_fs\<lparr>errno := ETIMEDOUT\<rparr>)
   \<and> \<not> nothing_ready (ex_extern\<lparr>is_read_ready := \<lambda>a. a = 4\<rparr>) ex_fs 5 (Some {4}) None None
   \<and> fs_select ex_extern 5 (Some {4}) None None (Some (0, 50000)) ex_fs
       [(Woken, ex_extern, ex_fs), (Woken, ex_extern\<lparr>is_read_ready := \<lambda>a. a = 4\<rparr>, ex_fs)] =
       Inr ((Val 1, Some {4}, None, None), ex_fs)
   \<and> ready_count (ex_extern\<lparr>is_read_ready := \<lambda>a. a = 4\<rparr>) ex_fs 5 (Some {4}) None None = 1
   \<and> fs_select ex_extern 5 (Some {4}) None None (Some (0, 50000)) ex_fs
       [(Woken, ex_extern, ex_fs), (Wait_failed EBADF, ex_extern, ex_fs)] =
       Inr ((Val (- 1), Some {4}, None, None), ex_fs\<lparr>errno := EBADF\<rparr>)"
proof -
  note now = select_returns_ready_members [where x = ex_extern and nfds = 5 and readfds = "Some {3, 4}"
      and writefds = "Some {4}" and exceptfds = None and timeout = None and s = ex_fs and sched = "[]"
      and n = 2 and r' = "Some {3}" and w' = "Some {4}" and e' = None and s' = ex_fs]
  note later = select_returns_ready_members [where x = ex_extern and nfds = 5 and readfds = "Some {4}"
      and writefds = None and exceptfds = None and timeout = "Some (0, 50000)" and s = ex_fs
      and quiet = "[(Woken, ex_extern, ex_fs)]" and res = Woken
      and xr = "ex_extern\<lparr>is_read_ready := \<lambda>a. a = 4\<rparr>" and sr = ex_fs
      and xt = ex_extern and st = ex_fs and err = EBADF and rest = "[]"]
  have z: "(0::int) \<le> 2"
    by simp
  have t: "Some (0::int, 50000::int) \<noteq> None" and w: "Some (0::int, 50000::int) \<noteq> None \<longrightarrow> Woken = Woken"
    and e: "EBADF \<noteq> ETIMEDOUT"
    by simp_all
  have c0: "cleared ex_fs 5 (is_read_ready ex_extern) (Some {4}) = Some {}"
    by (auto simp: cleared_def ready_at_def GetStream_def ex_fs_def ex_extern_def)
  have cn: "cleared s nfds rdy None = None" for s nfds rdy
    by (simp add: cleared_def)
  note here = now [THEN conjunct1, THEN mp, OF conjI [OF ex_select_two_ready z], THEN bex_only_world]
  have members: "{j. in_fdset j (Some {3}) \<and> 0 \<le> j \<and> j < 5}
       = ready_members ex_fs 5 (is_read_ready ex_extern) (Some {3, 4})"
    using here [THEN conjunct2, THEN conjunct2, THEN conjunct2, THEN conjunct2, THEN conjunct1] .
  from now [THEN conjunct2, THEN conjunct1] ex_select_two_ready_bound ex_select_two_ready_not_idle
  have "fs_select ex_extern 5 (Some {3, 4}) (Some {4}) None None ex_fs [] =
      Inr ((Val (ready_count ex_extern ex_fs 5 (Some {3, 4}) (Some {4}) None),
            cleared ex_fs 5 (is_read_ready ex_extern) (Some {3, 4}),
            cleared ex_fs 5 (is_write_ready ex_extern) (Some {4}),
            cleared ex_fs 5 (is_exception ex_extern) None), ex_fs)"
    by blast
  then have first: "ready_count ex_extern ex_fs 5 (Some {3, 4}) (Some {4}) None = 2"
    "cleared ex_fs 5 (is_read_ready ex_extern) (Some {3, 4}) = Some {3}"
    "cleared ex_fs 5 (is_write_ready ex_extern) (Some {4}) = Some {4}"
    unfolding ex_select_two_ready by simp_all
  note after = later [THEN conjunct2, THEN conjunct2, THEN mp, OF conjI [OF ex_nothing_ready ex_quiet_wakeups]]
  have blocked: "fs_select ex_extern 5 (Some {4}) None None (Some (0, 50000)) ex_fs
       [(Woken, ex_extern, ex_fs)] = Inl Blocked"
    using after [THEN conjunct1] .
  have woken: "fs_select ex_extern 5 (Some {4}) None None (Some (0, 50000)) ex_fs
       ([(Woken, ex_extern, ex_fs)] @ [(Woken, ex_extern\<lparr>is_read_ready := \<lambda>a. a = 4\<rparr>, ex_fs)]) =
       Inr ((Val (ready_count (ex_extern\<lparr>is_read_ready := \<lambda>a. a = 4\<rparr>) ex_fs 5 (Some {4}) None None),
             cleared ex_fs 5 (is_read_ready (ex_extern\<lparr>is_read_ready := \<lambda>a. a = 4\<rparr>)) (Some {4}),
             cleared ex_fs 5 (is_write_ready (ex_extern\<lparr>is_read_ready := \<lambda>a. a = 4\<rparr>)) None,
             cleared ex_fs 5 (is_exception (ex_extern\<lparr>is_read_ready := \<lambda>a. a = 4\<rparr>)) None), ex_fs)"
    using after [THEN conjunct2, THEN conjunct1, THEN mp,
        OF conjI [OF w conjI [OF ex_select_one_bound ex_select_later_not_idle]]] .
  then have count: "ready_count (ex_extern\<lparr>is_read_ready := \<lambda>a. a = 4\<rparr>) ex_fs 5 (Some {4}) None None = 1"
    unfolding append.simps ex_select_woken_ready by simp
  have expired: "fs_select ex_extern 5 (Some {4}) None None (Some (0, 50000)) ex_fs
       [(Woken, ex_extern, ex_fs), (Wait_failed ETIMEDOUT, ex_extern, ex_fs)] =
       Inr ((Val 0, Some {}, None, None), ex_fs\<lparr>errno := ETIMEDOUT\<rparr>)"
    using after [THEN conjunct2, THEN conjunct2, THEN conjunct2, THEN conjunct1, THEN mp,
        OF conjI [OF t ex_nothing_ready]]
    unfolding append.simps c0 cn .
  have failed: "fs_select ex_extern 5 (Some {4}) None None (Some (0, 50000)) ex_fs
       [(Woken, ex_extern, ex_fs), (Wait_failed EBADF, ex_extern, ex_fs)] =
       Inr ((Val (- 1), Some {4}, None, None), ex_fs\<lparr>errno := EBADF\<rparr>)"
    using after [THEN conjunct2, THEN conjunct2, THEN conjunct2, THEN conjunct2, THEN mp,
        OF conjI [OF t e]]
    unfolding append.simps .
  have quiet: "quiet_wakeups True 5 (Some {4}) None None [(Woken, ex_extern, ex_fs)]"
    using ex_quiet_wakeups by simp
  from ex_select_two_ready ex_select_two_ready_not_idle first members ex_nothing_ready quiet blocked
    expired ex_select_later_not_idle ex_select_woken_ready count failed
  show ?thesis
    by (intro conjI)
qed

section \<open>The host table\<close>

lemma bit_0xFF: "bit (0xFF :: 32 word) n \<longleftrightarrow> n < 8"
proof -
  have e: "(0xFF :: 32 word) = mask 8" by (simp add: mask_eq_exp_minus_1)
  show ?thesis unfolding e bit_mask_iff by auto
qed

lemma bit_0xFF00: "bit (0xFF00 :: 32 word) n \<longleftrightarrow> 8 \<le> n \<and> n < 16"
proof -
  have e: "(0xFF00 :: 32 word) = push_bit 8 (mask 8)" by (simp add: mask_eq_exp_minus_1 push_bit_eq_mult)
  show ?thesis unfolding e bit_push_bit_iff bit_mask_iff by auto
qed
lemma bit_htonl:
  "bit (htonl w) n \<longleftrightarrow>
     (n < 8 \<and> bit w (n + 24)) \<or> (8 \<le> n \<and> n < 16 \<and> bit w (n + 8))
     \<or> (16 \<le> n \<and> n < 24 \<and> bit w (n - 8)) \<or> (24 \<le> n \<and> n < 32 \<and> bit w (n - 24))"
proof -
  have a: "bit (push_bit 24 (w AND 0xFF)) n \<longleftrightarrow> 24 \<le> n \<and> n < 32 \<and> bit w (n - 24)"
    unfolding bit_push_bit_iff bit_and_iff bit_0xFF by auto
  have b: "bit (push_bit 8 (w AND 0xFF00)) n \<longleftrightarrow> 16 \<le> n \<and> n < 24 \<and> bit w (n - 8)"
    unfolding bit_push_bit_iff bit_and_iff bit_0xFF00 by auto
  have c: "bit (drop_bit 8 w AND 0xFF00) n \<longleftrightarrow> 8 \<le> n \<and> n < 16 \<and> bit w (n + 8)"
    unfolding bit_drop_bit_eq bit_and_iff bit_0xFF00 by (auto simp: add.commute)
  have d: "bit (drop_bit 24 w AND 0xFF) n \<longleftrightarrow> n < 8 \<and> bit w (n + 24)"
    unfolding bit_drop_bit_eq bit_and_iff bit_0xFF by (auto simp: add.commute)
  show ?thesis
    unfolding htonl_def bit_or_iff a b c d by blast
qed
lemma bit_htonl_byte0: "n < 8 \<Longrightarrow> bit (htonl w) n = bit w (n + 24)"
  and bit_htonl_byte1: "8 \<le> n \<Longrightarrow> n < 16 \<Longrightarrow> bit (htonl w) n = bit w (n + 8)"
  and bit_htonl_byte2: "16 \<le> n \<Longrightarrow> n < 24 \<Longrightarrow> bit (htonl w) n = bit w (n - 8)"
  and bit_htonl_byte3: "24 \<le> n \<Longrightarrow> n < 32 \<Longrightarrow> bit (htonl w) n = bit w (n - 24)"
  by (simp_all add: bit_htonl)

lemma htonl_htonl: "htonl (htonl w) = w"
proof (rule bit_word_eqI)
  fix n assume "n < LENGTH(32)"
  then have n: "n < 32" by simp
  consider "n < 8" | "8 \<le> n" "n < 16" | "16 \<le> n" "n < 24" | "24 \<le> n" "n < 32"
    using n by linarith
  then show "bit (htonl (htonl w)) n = bit w n"
  proof cases
    case 1
    then show ?thesis by (simp add: bit_htonl_byte0 bit_htonl_byte3)
  next
    case 2
    then show ?thesis by (simp add: bit_htonl_byte1 bit_htonl_byte2)
  next
    case 3
    then show ?thesis by (simp add: bit_htonl_byte2 bit_htonl_byte1)
  next
    case 4
    then show ?thesis by (simp add: bit_htonl_byte3 bit_htonl_byte0)
  qed
qed

lemma htonl_inj:
  assumes "htonl a = htonl b"
  shows "a = b"
proof -
  from assms have "htonl (htonl a) = htonl (htonl b)" by (rule arg_cong)
  then show ?thesis unfolding htonl_htonl .
qed

lemma of_nat_word32_inj:
  assumes i: "i < 2 ^ 32" and k: "k < 2 ^ 32" and e: "(of_nat i :: 32 word) = of_nat k"
  shows "i = k"
proof -
  have l: "LENGTH(32) = 32" by simp
  from e have "unat (of_nat i :: 32 word) = unat (of_nat k :: 32 word)" by (rule arg_cong)
  then have "i mod 2 ^ 32 = k mod 2 ^ 32" unfolding unat_of_nat l .
  with i k show "i = k" by (simp only: mod_less)
qed

lemma gethostbyname_hit: "hosts s name = Some a \<Longrightarrow> gethostbyname name s = (a, s)"
  by (simp add: gethostbyname_def)

lemma gethostbyname_miss:
  "hosts s name = None \<Longrightarrow>
   gethostbyname name s =
     (htonl (first_unused_addr s),
      s\<lparr>first_unused_addr := first_unused_addr s + 1,
        hosts := (hosts s)(name \<mapsto> htonl (first_unused_addr s)),
        addrs := (addrs s)(htonl (first_unused_addr s) \<mapsto> name)\<rparr>)"
  by (simp add: gethostbyname_def Let_def)

lemma gethostbyname_keeps_hosts:
  "hosts s name = Some a \<Longrightarrow> hosts (snd (gethostbyname other s)) name = Some a"
proof (cases "hosts s other")
  case None
  assume "hosts s name = Some a"
  with None have "other \<noteq> name" by auto
  with None \<open>hosts s name = Some a\<close> show ?thesis
    by (simp add: gethostbyname_miss)
next
  case (Some b)
  assume "hosts s name = Some a"
  with Some show ?thesis by (simp add: gethostbyname_hit)
qed

lemma gethostbyname_all_keeps_hosts:
  "hosts s name = Some a \<Longrightarrow> hosts (gethostbyname_all names s) name = Some a"
  by (induction names arbitrary: s) (simp_all add: gethostbyname_keeps_hosts)

lemma FileSystem_ctor_result:
  "FileSystem_ctor x =
     Inr \<lparr>paths = [''/dev/null'' \<mapsto> Handler 0, ''/dev/tty'' \<mapsto> Handler 1, ''/dev/random'' \<mapsto> Handler 2],
          streams = fmupd 2 (Obj 2) (fmupd 1 (Obj 1) (fmupd 0 (Obj 0) fmempty)),
          hosts = [''localhost'' \<mapsto> htonl 0x7F000001],
          addrs = [htonl 0x7F000001 \<mapsto> ''localhost''],
          first_unused_addr = kFirstAddr x, errno = Errno_other 0, calls = [], next_obj = 3\<rparr>"
  by (simp add: FileSystem_ctor_def FileSystem_empty_def AddFileStream_def AddPathHandler_def
      AddHostAddress_def Let_def)

lemma FileSystem_ctor_hosts:
  assumes "FileSystem_ctor x = Inr s0"
  shows "hosts s0 = [''localhost'' \<mapsto> htonl 0x7F000001]"
    and "addrs s0 = [htonl 0x7F000001 \<mapsto> ''localhost'']"
    and "first_unused_addr s0 = kFirstAddr x"
  using assms unfolding FileSystem_ctor_result by auto

text \<open>
  The two maps agree after any calls, as long as the counter has run through fewer than
  \<open>2 ^ 32\<close> values and none of them is the loopback address: a new address is then never
  one already in \<^verbatim>\<open>addrs_\<close>.
\<close>

lemma gethostbyname_all_consistent:
  assumes "hosts_consistent s"
    and "first_unused_addr s = base + of_nat k"
    and "\<forall>a\<in>dom (addrs s). a = htonl 0x7F000001 \<or> (\<exists>i<k. a = htonl (base + of_nat i))"
    and "k + length names \<le> 2 ^ 32"
    and "\<forall>i<k + length names. base + of_nat i \<noteq> 0x7F000001"
  shows "hosts_consistent (gethostbyname_all names s)"
  using assms
proof (induction names arbitrary: s k)
  case Nil
  then show ?case by simp
next
  case (Cons name names)
  show ?case
  proof (cases "hosts s name")
    case (Some a)
    have "hosts_consistent (gethostbyname_all names s)"
    proof (rule Cons.IH [OF Cons.prems(1) Cons.prems(2) Cons.prems(3)])
      show "k + length names \<le> 2 ^ 32" using Cons.prems(4) by simp
      show "\<forall>i<k + length names. base + of_nat i \<noteq> 0x7F000001" using Cons.prems(5) by simp
    qed
    with Some show ?thesis by (simp add: gethostbyname_hit)
  next
    case None
    define a where "a = htonl (first_unused_addr s)"
    define s' where "s' = s\<lparr>first_unused_addr := first_unused_addr s + 1,
        hosts := (hosts s)(name \<mapsto> a), addrs := (addrs s)(a \<mapsto> name)\<rparr>"
    have step: "snd (gethostbyname name s) = s'"
      using None by (simp add: gethostbyname_miss s'_def a_def)
    have k: "k < 2 ^ 32" and notloop: "base + of_nat k \<noteq> 0x7F000001"
      using Cons.prems(4,5) by simp_all
    have fresh: "a \<notin> dom (addrs s)"
    proof
      assume "a \<in> dom (addrs s)"
      with Cons.prems(3) consider "a = htonl 0x7F000001" | i where "i < k" "a = htonl (base + of_nat i)"
        by blast
      then show False
      proof cases
        case 1
        then have "base + of_nat k = 0x7F000001"
          unfolding a_def Cons.prems(2) by (rule htonl_inj)
        with notloop show False by (rule notE)
      next
        case 2
        from 2(2) have "base + of_nat k = base + of_nat i"
          unfolding a_def Cons.prems(2) by (rule htonl_inj)
        then have e: "(of_nat k :: 32 word) = of_nat i" by (simp only: add_left_cancel)
        from k 2(1) have i: "i < 2 ^ 32" by (rule less_trans [rotated])
        from of_nat_word32_inj [OF k i e] have "k = i" .
        with 2(1) show False by simp
      qed
    qed
    have cons': "hosts_consistent s'"
      unfolding hosts_consistent_def
    proof (intro allI impI)
      fix n b assume h: "hosts s' n = Some b"
      show "addrs s' b = Some n"
      proof (cases "n = name")
        case True
        with h show ?thesis by (simp add: s'_def)
      next
        case False
        with h have "hosts s n = Some b" by (simp add: s'_def)
        with Cons.prems(1) have ab: "addrs s b = Some n" by (simp add: hosts_consistent_def)
        with fresh have "b \<noteq> a" by auto
        with ab show ?thesis by (simp add: s'_def)
      qed
    qed
    have cnt': "first_unused_addr s' = base + of_nat (Suc k)"
      using Cons.prems(2) by (simp add: s'_def)
    have dom': "\<forall>b\<in>dom (addrs s'). b = htonl 0x7F000001 \<or> (\<exists>i<Suc k. b = htonl (base + of_nat i))"
    proof
      fix b assume "b \<in> dom (addrs s')"
      then have "b = a \<or> b \<in> dom (addrs s)" by (auto simp: s'_def split: if_splits)
      then show "b = htonl 0x7F000001 \<or> (\<exists>i<Suc k. b = htonl (base + of_nat i))"
      proof
        assume "b = a"
        then have "b = htonl (base + of_nat k)" by (simp add: a_def Cons.prems(2))
        then show ?thesis by blast
      next
        assume "b \<in> dom (addrs s)"
        with Cons.prems(3) have "b = htonl 0x7F000001 \<or> (\<exists>i<k. b = htonl (base + of_nat i))" by blast
        then show ?thesis using less_Suc_eq by blast
      qed
    qed
    have "hosts_consistent (gethostbyname_all names s')"
    proof (rule Cons.IH [OF cons' cnt' dom'])
      show "Suc k + length names \<le> 2 ^ 32" using Cons.prems(4) by simp
      show "\<forall>i<Suc k + length names. base + of_nat i \<noteq> 0x7F000001" using Cons.prems(5) by simp
    qed
    with step show ?thesis by simp
  qed
qed


text \<open>
  Each call moves the counter up by at most one, so an address made from it differs from
  the ones made in the next \<open>2 ^ 32 - 1\<close> calls.
\<close>

lemma gethostbyname_all_counter:
  "\<exists>m\<le>length names. first_unused_addr (gethostbyname_all names s) = first_unused_addr s + of_nat m"
proof (induction names arbitrary: s)
  case Nil
  show ?case by simp
next
  case (Cons name names)
  show ?case
  proof (cases "hosts s name")
    case (Some a)
    from Cons.IH [of s] obtain m where "m \<le> length names"
      and "first_unused_addr (gethostbyname_all names s) = first_unused_addr s + of_nat m"
      by blast
    with Some have "m \<le> length (name # names)"
      and "first_unused_addr (gethostbyname_all (name # names) s) = first_unused_addr s + of_nat m"
      by (simp_all add: gethostbyname_hit)
    then show ?thesis by blast
  next
    case None
    define s' where "s' = snd (gethostbyname name s)"
    have c: "first_unused_addr s' = first_unused_addr s + 1"
      using None by (simp add: s'_def gethostbyname_miss)
    from Cons.IH [of s'] obtain m where m: "m \<le> length names"
      and e: "first_unused_addr (gethostbyname_all names s') = first_unused_addr s' + of_nat m"
      by blast
    have "first_unused_addr (gethostbyname_all (name # names) s) = first_unused_addr s + of_nat (Suc m)"
      unfolding gethostbyname_all.simps s'_def [symmetric] e c by (simp only: of_nat_Suc add.assoc)
    moreover from m have "Suc m \<le> length (name # names)" by simp
    ultimately show ?thesis by blast
  qed
qed

lemma word32_add_of_nat_neq:
  assumes "0 < m" and "m < 2 ^ 32"
  shows "(c :: 32 word) \<noteq> c + of_nat m"
proof
  assume a: "c = c + of_nat m"
  have "c + of_nat 0 = c" by simp
  from this a have "c + of_nat 0 = c + of_nat m" by (rule trans)
  then have e: "(of_nat 0 :: 32 word) = of_nat m" by (simp only: add_left_cancel)
  have z: "(0 :: nat) < 2 ^ 32" by simp
  from of_nat_word32_inj [OF z assms(2) e] assms(1) show False by simp
qed

lemma gethostbyname_later_distinct:
  assumes n: "hosts s name = None"
    and len: "length mid < 2 ^ 32 - 1"
    and o: "hosts (gethostbyname_all mid (snd (gethostbyname name s))) other = None"
  shows "fst (gethostbyname name s) \<noteq>
         fst (gethostbyname other (gethostbyname_all mid (snd (gethostbyname name s))))"
proof -
  define s1 where "s1 = snd (gethostbyname name s)"
  define s2 where "s2 = gethostbyname_all mid s1"
  have first: "fst (gethostbyname name s) = htonl (first_unused_addr s)"
    using n by (simp add: gethostbyname_miss)
  have c1: "first_unused_addr s1 = first_unused_addr s + 1"
    using n by (simp add: s1_def gethostbyname_miss)
  from gethostbyname_all_counter [of mid s1] obtain m where m: "m \<le> length mid"
    and c2: "first_unused_addr s2 = first_unused_addr s1 + of_nat m"
    unfolding s2_def by blast
  have c3: "first_unused_addr s2 = first_unused_addr s + of_nat (Suc m)"
    unfolding c2 c1 by (simp only: of_nat_Suc add.assoc)
  from o have "hosts s2 other = None"
    by (simp add: s2_def s1_def)
  then have second: "fst (gethostbyname other s2) = htonl (first_unused_addr s2)"
    by (simp add: gethostbyname_miss)
  from m len have bound: "Suc m < 2 ^ 32" by simp
  have "htonl (first_unused_addr s) \<noteq> htonl (first_unused_addr s2)"
  proof
    assume "htonl (first_unused_addr s) = htonl (first_unused_addr s2)"
    then have "first_unused_addr s = first_unused_addr s2" by (rule htonl_inj)
    then have "first_unused_addr s = first_unused_addr s + of_nat (Suc m)" unfolding c3 .
    with word32_add_of_nat_neq [OF zero_less_Suc bound] show False by blast
  qed
  then show ?thesis
    unfolding s2_def [symmetric] s1_def [symmetric] first second s2_def [symmetric] .
qed

section \<open>Properties of the host table\<close>

lemma FileSystem_ctor_consistent:
  assumes "FileSystem_ctor x = Inr s0"
  shows "hosts_consistent s0"
  using FileSystem_ctor_hosts [OF assms]
  by (auto simp: hosts_consistent_def split: if_splits)

text \<open>
  Claim C9. After the constructor and any calls of \<^verbatim>\<open>gethostbyname\<close>, the name
  \<^verbatim>\<open>localhost\<close> resolves to the loopback address \<^verbatim>\<open>htonl(0x7F000001)\<close>. Every call
  returns an address, and afterwards \<^verbatim>\<open>hosts_\<close> maps the name to it. A name not in the
  table gets the address made from the counter, the counter goes up by one, and the
  name and the address are entered in both maps; a second name that is still not in the
  table after fewer than \<open>2 ^ 32 - 1\<close> further calls (none, when it is resolved next) gets
  a different address. When the two maps agree, the
  address returned for a name maps back to that name in \<^verbatim>\<open>addrs_\<close>; the maps agree after
  the constructor and after any calls, as long as fewer than \<open>2 ^ 32\<close> counter values
  have been used and none of them is the loopback address.
\<close>

theorem host_table_properties:
  "(FileSystem_ctor x = Inr s0 \<longrightarrow>
      fst (gethostbyname ''localhost'' (gethostbyname_all names s0)) = htonl 0x7F000001)
   \<and> hosts (snd (gethostbyname name s)) name = Some (fst (gethostbyname name s))
   \<and> (hosts s name = None \<longrightarrow>
        gethostbyname name s =
          (htonl (first_unused_addr s),
           s\<lparr>first_unused_addr := first_unused_addr s + 1,
             hosts := (hosts s)(name \<mapsto> htonl (first_unused_addr s)),
             addrs := (addrs s)(htonl (first_unused_addr s) \<mapsto> name)\<rparr>))
   \<and> (hosts s name = None \<and> length mid < 2 ^ 32 - 1
        \<and> hosts (gethostbyname_all mid (snd (gethostbyname name s))) other = None \<longrightarrow>
        fst (gethostbyname name s) \<noteq>
        fst (gethostbyname other (gethostbyname_all mid (snd (gethostbyname name s)))))
   \<and> (hosts_consistent s \<longrightarrow>
        addrs (snd (gethostbyname name s)) (fst (gethostbyname name s)) = Some name)
   \<and> (FileSystem_ctor x = Inr s0 \<and> length names \<le> 2 ^ 32
        \<and> (\<forall>i<length names. kFirstAddr x + of_nat i \<noteq> 0x7F000001) \<longrightarrow>
        hosts_consistent (gethostbyname_all names s0))"
proof -
  have localhost: "fst (gethostbyname ''localhost'' (gethostbyname_all names s0)) = htonl 0x7F000001"
    if ctor: "FileSystem_ctor x = Inr s0"
  proof -
    from FileSystem_ctor_hosts(1) [OF ctor] have "hosts s0 ''localhost'' = Some (htonl 0x7F000001)"
      by simp
    then have "hosts (gethostbyname_all names s0) ''localhost'' = Some (htonl 0x7F000001)"
      by (rule gethostbyname_all_keeps_hosts)
    then show ?thesis by (simp add: gethostbyname_hit)
  qed
  have entered: "hosts (snd (gethostbyname name s)) name = Some (fst (gethostbyname name s))"
    by (cases "hosts s name") (simp_all add: gethostbyname_miss gethostbyname_hit)
  have miss: "gethostbyname name s =
          (htonl (first_unused_addr s),
           s\<lparr>first_unused_addr := first_unused_addr s + 1,
             hosts := (hosts s)(name \<mapsto> htonl (first_unused_addr s)),
             addrs := (addrs s)(htonl (first_unused_addr s) \<mapsto> name)\<rparr>)"
    if "hosts s name = None"
    using that by (rule gethostbyname_miss)
  have distinct: "fst (gethostbyname name s) \<noteq>
        fst (gethostbyname other (gethostbyname_all mid (snd (gethostbyname name s))))"
    if "hosts s name = None \<and> length mid < 2 ^ 32 - 1
        \<and> hosts (gethostbyname_all mid (snd (gethostbyname name s))) other = None"
    using that gethostbyname_later_distinct [of s name mid other] by blast
  have roundtrip: "addrs (snd (gethostbyname name s)) (fst (gethostbyname name s)) = Some name"
    if "hosts_consistent s"
  proof (cases "hosts s name")
    case None
    then show ?thesis by (simp add: gethostbyname_miss)
  next
    case (Some a)
    with that show ?thesis by (simp add: gethostbyname_hit hosts_consistent_def)
  qed
  have reach: "hosts_consistent (gethostbyname_all names s0)"
    if "FileSystem_ctor x = Inr s0 \<and> length names \<le> 2 ^ 32
        \<and> (\<forall>i<length names. kFirstAddr x + of_nat i \<noteq> 0x7F000001)"
  proof -
    from that have ctor: "FileSystem_ctor x = Inr s0" and len: "length names \<le> 2 ^ 32"
      and clear: "\<forall>i<length names. kFirstAddr x + of_nat i \<noteq> 0x7F000001"
      by simp_all
    show ?thesis
    proof (rule gethostbyname_all_consistent [where base = "kFirstAddr x" and k = 0])
      show "hosts_consistent s0" using ctor by (rule FileSystem_ctor_consistent)
      show "first_unused_addr s0 = kFirstAddr x + of_nat 0"
        using FileSystem_ctor_hosts(3) [OF ctor] by simp
      show "\<forall>a\<in>dom (addrs s0). a = htonl 0x7F000001 \<or> (\<exists>i<0. a = htonl (kFirstAddr x + of_nat i))"
        using FileSystem_ctor_hosts(2) [OF ctor] by (auto split: if_splits)
      show "0 + length names \<le> 2 ^ 32" using len by simp
      show "\<forall>i<0 + length names. kFirstAddr x + of_nat i \<noteq> 0x7F000001" using clear by simp
    qed
  qed
  from localhost entered miss distinct roundtrip reach show ?thesis
    by blast
qed

lemma ex_fs_hosts_consistent: "hosts_consistent ex_fs"
  by (auto simp: hosts_consistent_def ex_fs_def split: if_splits)

text \<open>
  On the concrete environment, where the counter starts at 0: the names \<^verbatim>\<open>a\<close> and
  \<^verbatim>\<open>b\<close> get the addresses made from 0 and 1.
\<close>

theorem host_table_properties_witness:
  "(\<exists>s0. FileSystem_ctor ex_extern = Inr s0
      \<and> fst (gethostbyname ''localhost'' (gethostbyname_all [''a'', ''b''] s0)) = htonl 0x7F000001
      \<and> hosts_consistent (gethostbyname_all [''a'', ''b''] s0))
   \<and> length [''a'', ''b''] \<le> (2 :: nat) ^ 32
   \<and> \<not> (\<exists>i<length [''a'', ''b'']. kFirstAddr ex_extern + of_nat i = 0x7F000001)
   \<and> hosts ex_fs ''a'' = None \<and> hosts ex_fs ''b'' = None \<and> ''a'' \<noteq> ''b''
   \<and> fst (gethostbyname ''a'' ex_fs) = htonl 0
   \<and> fst (gethostbyname ''b'' (snd (gethostbyname ''a'' ex_fs))) = htonl 1
   \<and> fst (gethostbyname ''a'' ex_fs) \<noteq> fst (gethostbyname ''b'' (snd (gethostbyname ''a'' ex_fs)))
   \<and> hosts_consistent ex_fs
   \<and> addrs (snd (gethostbyname ''a'' ex_fs)) (fst (gethostbyname ''a'' ex_fs)) = Some ''a''
   \<and> addrs (snd (gethostbyname ''localhost'' ex_fs)) (fst (gethostbyname ''localhost'' ex_fs))
       = Some ''localhost''"
proof -
  obtain s0 where ctor: "FileSystem_ctor ex_extern = Inr s0"
    using FileSystem_ctor_result [of ex_extern] by blast
  have len: "length [''a'', ''b''] \<le> (2 :: nat) ^ 32"
    by simp
  have clear: "\<forall>i<length [''a'', ''b'']. kFirstAddr ex_extern + of_nat i \<noteq> 0x7F000001"
  proof (intro allI impI)
    fix i assume "i < length [''a'', ''b'']"
    then have "i = 0 \<or> i = 1" by auto
    then show "kFirstAddr ex_extern + of_nat i \<noteq> 0x7F000001"
      by (auto simp: ex_extern_def)
  qed
  have a: "hosts ex_fs ''a'' = None" and b: "hosts ex_fs ''b'' = None" and ne: "''a'' \<noteq> ''b''"
    by (simp_all add: ex_fs_def)
  have c: "first_unused_addr ex_fs = 0"
    by (simp add: ex_fs_def)
  note w1 = host_table_properties [where x = ex_extern and ?s0.0 = s0 and names = "[''a'', ''b'']"
      and s = ex_fs and name = "''a''" and other = "''b''" and mid = "[]"]
  note w2 = host_table_properties [where x = ex_extern and ?s0.0 = s0 and names = "[''a'', ''b'']"
      and s = ex_fs and name = "''localhost''" and other = "''b''" and mid = "[]"]
  have mid: "length ([] :: string list) < 2 ^ 32 - 1"
    by simp
  from w1 ctor len clear
  have p1: "fst (gethostbyname ''localhost'' (gethostbyname_all [''a'', ''b''] s0)) = htonl 0x7F000001"
    and p2: "hosts_consistent (gethostbyname_all [''a'', ''b''] s0)"
    by blast+
  from w1 a have m1: "gethostbyname ''a'' ex_fs =
          (htonl (first_unused_addr ex_fs),
           ex_fs\<lparr>first_unused_addr := first_unused_addr ex_fs + 1,
             hosts := (hosts ex_fs)(''a'' \<mapsto> htonl (first_unused_addr ex_fs)),
             addrs := (addrs ex_fs)(htonl (first_unused_addr ex_fs) \<mapsto> ''a'')\<rparr>)"
    by blast
  have b': "hosts (gethostbyname_all [] (snd (gethostbyname ''a'' ex_fs))) ''b'' = None"
    unfolding m1 using b by simp
  from w1 a mid b'
  have "fst (gethostbyname ''a'' ex_fs) \<noteq>
      fst (gethostbyname ''b'' (gethostbyname_all [] (snd (gethostbyname ''a'' ex_fs))))"
    by blast
  then have d: "fst (gethostbyname ''a'' ex_fs) \<noteq> fst (gethostbyname ''b'' (snd (gethostbyname ''a'' ex_fs)))"
    unfolding gethostbyname_all.simps .
  from w1 ex_fs_hosts_consistent
  have r1: "addrs (snd (gethostbyname ''a'' ex_fs)) (fst (gethostbyname ''a'' ex_fs)) = Some ''a''"
    by blast
  from w2 ex_fs_hosts_consistent
  have r2: "addrs (snd (gethostbyname ''localhost'' ex_fs)) (fst (gethostbyname ''localhost'' ex_fs))
       = Some ''localhost''"
    by blast
  have f1: "fst (gethostbyname ''a'' ex_fs) = htonl 0"
    unfolding m1 by (simp add: c)
  have f2: "fst (gethostbyname ''b'' (snd (gethostbyname ''a'' ex_fs))) = htonl 1"
    unfolding m1 using b by (simp add: gethostbyname_miss c)
  from ctor p1 p2 len clear a b ne f1 f2 d ex_fs_hosts_consistent r1 r2 show ?thesis
    by blast
qed

end
